theory Spec2Isabelle
  imports Main "HOL-Library.Word"
begin

section \<open>Client side: ConnectionImpl, the reconnect engine\<close>

text \<open>
  Source: \<^verbatim>\<open>qpid/cpp/src/qpid/client/amqp0_10/ConnectionImpl.cpp\<close>.

  Exceptions are values of \<open>client_error\<close>. The integers of the source are \<open>int\<close>.
  Where the source computes in \<^verbatim>\<open>int64_t\<close> (the doubled interval in \<^verbatim>\<open>connect\<close>, the
  two durations in \<^verbatim>\<open>expired\<close>) the result is written with its wrap-around:
  \<open>int64 n\<close> is the value the 64-bit two's complement register holds when the exact
  result is \<open>n\<close>.
\<close>

definition int64 :: "int \<Rightarrow> int" where
  "int64 n = (n + 9223372036854775808) mod 18446744073709551616 - 9223372036854775808"

datatype client_error =
    MessagingException string
  | TransportFailure string
  | TargetCapacityExceeded
  | InvalidConversion

text \<open>
  Modelled from the spec: \<^verbatim>\<open>qpid::types::Variant\<close> is declared elsewhere in the
  repository. An option value is a bool, an integer, a string or a list
  (``\<^verbatim>\<open>reconnect-urls\<close> (string or list)''). Conversions between kinds are not modelled:
  reading a value as another kind raises \<open>InvalidConversion\<close>.
\<close>

datatype variant = VBool bool | VInt int | VString string | VList "variant list"

fun asBool :: "variant \<Rightarrow> client_error + bool" where
  "asBool (VBool b) = Inr b"
| "asBool _ = Inl InvalidConversion"

fun asInt :: "variant \<Rightarrow> client_error + int" where
  "asInt (VInt n) = Inr n"
| "asInt _ = Inl InvalidConversion"

fun asString :: "variant \<Rightarrow> client_error + string" where
  "asString (VString s) = Inr s"
| "asString _ = Inl InvalidConversion"

record connection_settings =
  username :: string
  password :: string
  mechanism :: string
  service :: string
  minSsf :: int
  maxSsf :: int
  heartbeat :: int
  tcpNoDelay :: bool
  localeName :: string
  maxChannels :: int
  maxFrameSize :: int
  bounds :: int
  protocol :: string
  sslCertName :: string

text \<open>
  The fields of \<^verbatim>\<open>ConnectionImpl\<close> the modelled functions read or write, and
  \<open>slept\<close>, the record of the calls of \<^verbatim>\<open>qpid::sys::sleep\<close> in the order made.
\<close>

record connection_impl =
  replaceUrls :: bool
  reconnect :: bool
  timeout :: int
  limit :: int
  minReconnectInterval :: int
  maxReconnectInterval :: int
  retries :: int
  reconnectOnLimitExceeded :: bool
  urls :: "string list"
  settings :: connection_settings
  slept :: "int list"

subsection \<open>merge\<close>

text \<open>\<^verbatim>\<open>void merge(const std::string& value, std::vector<std::string>& list)\<close>\<close>

definition merge :: "string \<Rightarrow> string list \<Rightarrow> string list" where
  "merge v list = (if v \<in> set list then list else list @ [v])"

text \<open>
  \<^verbatim>\<open>void merge(const Variant::List& from, std::vector<std::string>& to)\<close>: a
  conversion that throws in the middle leaves the entries merged so far.
\<close>

fun mergeList :: "variant list \<Rightarrow> string list \<Rightarrow> client_error option \<times> string list" where
  "mergeList [] to = (None, to)"
| "mergeList (i # from) to =
     (case asString i of
        Inl e \<Rightarrow> (Some e, to)
      | Inr s \<Rightarrow> mergeList from (merge s to))"

text \<open>\<^verbatim>\<open>ConnectionImpl::mergeUrls\<close>, on the strings \<^verbatim>\<open>i->str()\<close> of the known hosts.\<close>

fun mergeUrls :: "string list \<Rightarrow> string list \<Rightarrow> string list" where
  "mergeUrls [] to = to"
| "mergeUrls (u # hosts) to = mergeUrls hosts (merge u to)"

subsection \<open>setOption, setOptions and the constructor\<close>

definition assignBool ::
  "variant \<Rightarrow> (bool \<Rightarrow> connection_impl) \<Rightarrow> connection_impl \<Rightarrow> client_error option \<times> connection_impl" where
  "assignBool v upd c = (case asBool v of Inl e \<Rightarrow> (Some e, c) | Inr b \<Rightarrow> (None, upd b))"

definition assignInt ::
  "variant \<Rightarrow> (int \<Rightarrow> connection_impl) \<Rightarrow> connection_impl \<Rightarrow> client_error option \<times> connection_impl" where
  "assignInt v upd c = (case asInt v of Inl e \<Rightarrow> (Some e, c) | Inr n \<Rightarrow> (None, upd n))"

definition assignString ::
  "variant \<Rightarrow> (string \<Rightarrow> connection_impl) \<Rightarrow> connection_impl \<Rightarrow> client_error option \<times> connection_impl" where
  "assignString v upd c = (case asString v of Inl e \<Rightarrow> (Some e, c) | Inr s \<Rightarrow> (None, upd s))"

text \<open>
  \<^verbatim>\<open>ConnectionImpl::setOption\<close>. The result is the exception raised, if any, and the
  object afterwards.
\<close>

definition setOption ::
  "string \<Rightarrow> variant \<Rightarrow> connection_impl \<Rightarrow> client_error option \<times> connection_impl" where
  "setOption name v c =
    (if name = ''reconnect'' then assignBool v (\<lambda>b. c\<lparr>reconnect := b\<rparr>) c
     else if name = ''reconnect-timeout'' \<or> name = ''reconnect_timeout'' then
       assignInt v (\<lambda>n. c\<lparr>timeout := n\<rparr>) c
     else if name = ''reconnect-limit'' \<or> name = ''reconnect_limit'' then
       assignInt v (\<lambda>n. c\<lparr>limit := n\<rparr>) c
     else if name = ''reconnect-interval'' \<or> name = ''reconnect_interval'' then
       assignInt v (\<lambda>n. c\<lparr>minReconnectInterval := n, maxReconnectInterval := n\<rparr>) c
     else if name = ''reconnect-interval-min'' \<or> name = ''reconnect_interval_min'' then
       assignInt v (\<lambda>n. c\<lparr>minReconnectInterval := n\<rparr>) c
     else if name = ''reconnect-interval-max'' \<or> name = ''reconnect_interval_max'' then
       assignInt v (\<lambda>n. c\<lparr>maxReconnectInterval := n\<rparr>) c
     else if name = ''reconnect-urls-replace'' \<or> name = ''reconnect_urls_replace'' then
       assignBool v (\<lambda>b. c\<lparr>replaceUrls := b\<rparr>) c
     else if name = ''reconnect-urls'' \<or> name = ''reconnect_urls'' then
       (let c1 = (if replaceUrls c then c\<lparr>urls := []\<rparr> else c) in
        case v of
          VList l \<Rightarrow> (case mergeList l (urls c1) of (r, us) \<Rightarrow> (r, c1\<lparr>urls := us\<rparr>))
        | _ \<Rightarrow> assignString v (\<lambda>s. c1\<lparr>urls := merge s (urls c1)\<rparr>) c1)
     else if name = ''username'' then
       assignString v (\<lambda>s. c\<lparr>settings := (settings c)\<lparr>username := s\<rparr>\<rparr>) c
     else if name = ''password'' then
       assignString v (\<lambda>s. c\<lparr>settings := (settings c)\<lparr>password := s\<rparr>\<rparr>) c
     else if name = ''sasl-mechanism'' \<or> name = ''sasl_mechanism'' \<or>
             name = ''sasl-mechanisms'' \<or> name = ''sasl_mechanisms'' then
       assignString v (\<lambda>s. c\<lparr>settings := (settings c)\<lparr>mechanism := s\<rparr>\<rparr>) c
     else if name = ''sasl-service'' \<or> name = ''sasl_service'' then
       assignString v (\<lambda>s. c\<lparr>settings := (settings c)\<lparr>service := s\<rparr>\<rparr>) c
     else if name = ''sasl-min-ssf'' \<or> name = ''sasl_min_ssf'' then
       assignInt v (\<lambda>n. c\<lparr>settings := (settings c)\<lparr>minSsf := n\<rparr>\<rparr>) c
     else if name = ''sasl-max-ssf'' \<or> name = ''sasl_max_ssf'' then
       assignInt v (\<lambda>n. c\<lparr>settings := (settings c)\<lparr>maxSsf := n\<rparr>\<rparr>) c
     else if name = ''heartbeat'' then
       assignInt v (\<lambda>n. c\<lparr>settings := (settings c)\<lparr>heartbeat := n\<rparr>\<rparr>) c
     else if name = ''tcp-nodelay'' \<or> name = ''tcp_nodelay'' then
       assignBool v (\<lambda>b. c\<lparr>settings := (settings c)\<lparr>tcpNoDelay := b\<rparr>\<rparr>) c
     else if name = ''locale'' then
       assignString v (\<lambda>s. c\<lparr>settings := (settings c)\<lparr>localeName := s\<rparr>\<rparr>) c
     else if name = ''max-channels'' \<or> name = ''max_channels'' then
       assignInt v (\<lambda>n. c\<lparr>settings := (settings c)\<lparr>maxChannels := n\<rparr>\<rparr>) c
     else if name = ''max-frame-size'' \<or> name = ''max_frame_size'' then
       assignInt v (\<lambda>n. c\<lparr>settings := (settings c)\<lparr>maxFrameSize := n\<rparr>\<rparr>) c
     else if name = ''bounds'' then
       assignInt v (\<lambda>n. c\<lparr>settings := (settings c)\<lparr>bounds := n\<rparr>\<rparr>) c
     else if name = ''transport'' then
       assignString v (\<lambda>s. c\<lparr>settings := (settings c)\<lparr>protocol := s\<rparr>\<rparr>) c
     else if name = ''ssl-cert-name'' \<or> name = ''ssl_cert_name'' then
       assignString v (\<lambda>s. c\<lparr>settings := (settings c)\<lparr>sslCertName := s\<rparr>\<rparr>) c
     else if name = ''x-reconnect-on-limit-exceeded'' \<or> name = ''x_reconnect_on_limit_exceeded'' then
       assignBool v (\<lambda>b. c\<lparr>reconnectOnLimitExceeded := b\<rparr>) c
     else (Some (MessagingException (''Invalid option: '' @ name @ '' not recognised'')), c))"

text \<open>
  \<^verbatim>\<open>ConnectionImpl::setOptions\<close>: the options in the order the map iterates them
  (given here as an association list); the first exception ends the loop.
\<close>

fun setOptions ::
  "(string \<times> variant) list \<Rightarrow> connection_impl \<Rightarrow> client_error option \<times> connection_impl" where
  "setOptions [] c = (None, c)"
| "setOptions ((name, v) # options) c =
     (case setOption name v c of
        (Some e, c1) \<Rightarrow> (Some e, c1)
      | (None, c1) \<Rightarrow> setOptions options c1)"

text \<open>
  The constructor \<^verbatim>\<open>ConnectionImpl::ConnectionImpl(url, options)\<close>: the member
  initialisers, then \<^verbatim>\<open>setOptions(options)\<close>, then
  \<^verbatim>\<open>urls.insert(urls.begin(), url)\<close>. The default \<^verbatim>\<open>ConnectionSettings\<close> are
  declared elsewhere in the repository and are a parameter. An exception leaves no object.
\<close>

definition initialConnection :: "connection_settings \<Rightarrow> connection_impl" where
  "initialConnection st =
     \<lparr> replaceUrls = False, reconnect = False, timeout = -1, limit = -1,
       minReconnectInterval = 3, maxReconnectInterval = 60,
       retries = 0, reconnectOnLimitExceeded = True,
       urls = [], settings = st, slept = [] \<rparr>"

definition ConnectionImpl ::
  "connection_settings \<Rightarrow> string \<Rightarrow> (string \<times> variant) list \<Rightarrow> client_error + connection_impl" where
  "ConnectionImpl st url options =
     (case setOptions options (initialConnection st) of
        (Some e, c) \<Rightarrow> Inl e
      | (None, c) \<Rightarrow> Inr (c\<lparr>urls := url # urls c\<rparr>))"

subsection \<open>tryConnect and resetSessions\<close>

text \<open>
  What one call of \<^verbatim>\<open>tryConnect\<close> meets outside the object: whether
  \<^verbatim>\<open>connection.open\<close> succeeds for a URL (it throws \<^verbatim>\<open>TransportFailure\<close>
  otherwise), the user and password parts of a URL, the known hosts the broker advertises
  (\<^verbatim>\<open>connection.getInitialBrokers()\<close>, as strings), how re-creating the tracked
  sessions ends, and the clock reading \<^verbatim>\<open>qpid::sys::now()\<close> that \<^verbatim>\<open>expired\<close>
  takes if it is reached, in nanoseconds.
\<close>

datatype reset_outcome = ResetOk | ResetTransportFailure | ResetResourceLimitExceeded

record attempt_env =
  openOk :: "string \<Rightarrow> bool"
  urlUser :: "string \<Rightarrow> string"
  urlPass :: "string \<Rightarrow> string"
  initialBrokers :: "string \<Rightarrow> string list"
  resetOutcome :: reset_outcome
  clock :: int

text \<open>
  \<^verbatim>\<open>ConnectionImpl::resetSessions\<close>; \<^verbatim>\<open>detach()\<close> closes the connection object,
  which is not part of the modelled fields.
\<close>

definition resetSessions :: "attempt_env \<Rightarrow> connection_impl \<Rightarrow> (client_error + bool) \<times> connection_impl" where
  "resetSessions e c =
     (case resetOutcome e of
        ResetOk \<Rightarrow> (Inr True, c)
      | ResetTransportFailure \<Rightarrow> (Inr False, c)
      | ResetResourceLimitExceeded \<Rightarrow>
          if reconnectOnLimitExceeded c then (Inr False, c)
          else (Inl TargetCapacityExceeded, c))"

text \<open>The loop of \<^verbatim>\<open>ConnectionImpl::tryConnect\<close> over the URLs not yet tried.\<close>

fun tryUrls ::
  "attempt_env \<Rightarrow> string list \<Rightarrow> connection_impl \<Rightarrow> (client_error + bool) \<times> connection_impl" where
  "tryUrls e [] c = (Inr False, c)"
| "tryUrls e (u # us) c =
     (let c1 = (if urlUser e u \<noteq> [] then c\<lparr>settings := (settings c)\<lparr>username := urlUser e u\<rparr>\<rparr> else c);
          c2 = (if urlPass e u \<noteq> [] then c1\<lparr>settings := (settings c1)\<lparr>password := urlPass e u\<rparr>\<rparr> else c1)
      in if openOk e u
         then resetSessions e (c2\<lparr>urls := mergeUrls (initialBrokers e u) (urls c2)\<rparr>)
         else tryUrls e us c2)"

definition tryConnect :: "attempt_env \<Rightarrow> connection_impl \<Rightarrow> (client_error + bool) \<times> connection_impl" where
  "tryConnect e c = tryUrls e (urls c) c"

subsection \<open>expired and connect\<close>

text \<open>
  \<^verbatim>\<open>bool expired(const AbsTime& start, int64_t timeout)\<close>, with the clock reading as
  an argument; \<^verbatim>\<open>TIME_SEC\<close> is the number of nanoseconds in a second. A
  \<^verbatim>\<open>Duration\<close> is a count of nanoseconds in 64 bits: both \<^verbatim>\<open>used\<close> and
  \<^verbatim>\<open>allowed\<close> wrap.
\<close>

definition TIME_SEC :: int where
  "TIME_SEC = 1000000000"

definition expired :: "int \<Rightarrow> int \<Rightarrow> int \<Rightarrow> bool" where
  "expired start tmo now =
     (if tmo = 0 then True
      else if tmo < 0 then False
      else (let used = int64 (now - start); allowed = int64 (tmo * TIME_SEC) in allowed < used))"

text \<open>
  \<^verbatim>\<open>ConnectionImpl::connect\<close>. Each call of \<^verbatim>\<open>tryConnect\<close> consumes one element of
  the list of environments; the loop may run forever in the source, and \<open>Retrying\<close> is
  the result when the list is used up while the loop is still going. The interval
  \<^verbatim>\<open>int64_t i\<close> is doubled in 64 bits; \<open>slept\<close> records the argument \<^verbatim>\<open>i\<close> of each
  \<^verbatim>\<open>qpid::sys::sleep(i)\<close>.
\<close>

datatype connect_result = Connected | Failed client_error | Retrying

fun connectLoop ::
  "int \<Rightarrow> int \<Rightarrow> attempt_env list \<Rightarrow> connection_impl \<Rightarrow> connect_result \<times> connection_impl" where
  "connectLoop started i [] c = (Retrying, c)"
| "connectLoop started i (e # es) c =
     (case tryConnect e c of
        (Inl err, c1) \<Rightarrow> (Failed err, c1)
      | (Inr True, c1) \<Rightarrow> (Connected, c1\<lparr>retries := 0\<rparr>)
      | (Inr False, c1) \<Rightarrow>
          if \<not> reconnect c1 then
            (Failed (TransportFailure ''Failed to connect (reconnect disabled)''), c1)
          else if 0 \<le> limit c1 \<and> limit c1 \<le> retries c1 then
            (Failed (TransportFailure ''Failed to connect within reconnect limit''),
             c1\<lparr>retries := retries c1 + 1\<rparr>)
          else
            (let c2 = (if 0 \<le> limit c1 then c1\<lparr>retries := retries c1 + 1\<rparr> else c1) in
             if expired started (timeout c2) (clock e) then
               (Failed (TransportFailure ''Failed to connect within reconnect timeout''), c2)
             else connectLoop started (min (int64 (i * 2)) (maxReconnectInterval c2)) es
                    (c2\<lparr>slept := slept c2 @ [i]\<rparr>)))"

definition connect :: "int \<Rightarrow> attempt_env list \<Rightarrow> connection_impl \<Rightarrow> connect_result \<times> connection_impl" where
  "connect started es c = connectLoop started (minReconnectInterval c) es c"

subsection \<open>The back-off sequence of the spec, and environments for concrete runs\<close>

text \<open>
  The spec's words for the sleeps (a second definition, compared with \<open>connect\<close>
  below): the first sleep is \<^verbatim>\<open>reconnect-interval-min\<close>, each later one is
  \<^verbatim>\<open>min(previous*2, reconnect-interval-max)\<close>.
\<close>

fun backoff :: "int \<Rightarrow> int \<Rightarrow> nat \<Rightarrow> int" where
  "backoff lo hi 0 = lo"
| "backoff lo hi (Suc k) = min (backoff lo hi k * 2) hi"

text \<open>No URL of the list can be opened in the environment \<open>e\<close>.\<close>

definition unreachable :: "string list \<Rightarrow> attempt_env \<Rightarrow> bool" where
  "unreachable us e = list_all (\<lambda>u. \<not> openOk e u) us"

definition noSettings :: connection_settings where
  "noSettings = \<lparr> username = [], password = [], mechanism = [], service = [], minSsf = 0,
     maxSsf = 0, heartbeat = 0, tcpNoDelay = False, localeName = [], maxChannels = 0,
     maxFrameSize = 0, bounds = 0, protocol = [], sslCertName = [] \<rparr>"

text \<open>A broker that refuses every URL, and one that accepts and advertises known hosts.\<close>

definition brokerDown :: "int \<Rightarrow> attempt_env" where
  "brokerDown now = \<lparr> openOk = (\<lambda>u. False), urlUser = (\<lambda>u. []), urlPass = (\<lambda>u. []),
     initialBrokers = (\<lambda>u. []), resetOutcome = ResetOk, clock = now \<rparr>"

definition brokerUp :: "string list \<Rightarrow> attempt_env" where
  "brokerUp known = \<lparr> openOk = (\<lambda>u. True), urlUser = (\<lambda>u. []), urlPass = (\<lambda>u. []),
     initialBrokers = (\<lambda>u. known), resetOutcome = ResetOk, clock = 0 \<rparr>"

text \<open>Scenario S4 of the spec: reconnect on, intervals 1 to 8 seconds, one URL.\<close>

definition backoffConnection :: connection_impl where
  "backoffConnection = (initialConnection noSettings)
     \<lparr> reconnect := True, minReconnectInterval := 1, maxReconnectInterval := 8, urls := [''amqp://a''] \<rparr>"

text \<open>Reconnect on with \<^verbatim>\<open>reconnect-limit\<close> 2 and the default intervals 3 to 60.\<close>

definition limitedConnection :: connection_impl where
  "limitedConnection = (initialConnection noSettings)
     \<lparr> reconnect := True, limit := 2, urls := [''amqp://a''] \<rparr>"

section \<open>Broker side: SessionState\<close>

text \<open>
  Source: \<^verbatim>\<open>qpid/cpp/src/qpid/broker/SessionState.cpp\<close>. The class keeps its protocol
  state in the base class \<^verbatim>\<open>qpid::SessionState\<close> and talks to the peer through
  proxies of its \<^verbatim>\<open>SessionHandler\<close>; both are declared elsewhere in the repository. The model
  keeps the state the modelled functions read or write in one record, and records every
  call that leaves the class (to the base class, a proxy, the semantic layer, the timer,
  the connection, the log) in \<open>trace\<close>, in the order made.

  Exceptions and failed assertions are values of \<open>broker_error\<close>; a function returns
  what it returned or threw together with the state it left behind. Calls that are
  undefined in C++ (through a null pointer, \<^verbatim>\<open>front()\<close> of an empty set, a freed
  session) are errors of their own, so that no theorem speaks about a value HOL leaves
  unspecified.
\<close>

datatype broker_error =
    NotImplementedException string
  | InternalErrorException string
  | ProtocolViolation
  | AssertionFailed string
  | NullDereference string
  | EmptySequenceSet
  | UseAfterFree
  | InvalidPointer
  | DivisionByZero

datatype 'a outcome = Return 'a | Throw broker_error

text \<open>
  Modelled from the spec: \<^verbatim>\<open>qpid::framing::SequenceNumber\<close> is declared elsewhere in
  the repository. A command id is a ``u32 wrap-around sequence'': a 32-bit word whose
  successor wraps from \<open>2^32 - 1\<close> to \<open>0\<close>.
\<close>

type_synonym SequenceNumber = "32 word"

text \<open>
  Modelled from the spec: the comparison \<^verbatim>\<open>operator<\<close> of
  \<^verbatim>\<open>SequenceNumber\<close>, declared elsewhere in the repository. Ids are compared in the
  order of a wrap-around sequence: \<open>x\<close> is before \<open>y\<close> when the difference
  \<open>x - y\<close>, taken in 32 bits and read as a signed number, is negative (\<open>y\<close> is
  reached from \<open>x\<close> in at least one and at most \<open>2^31\<close> steps). The other
  comparisons of the source are derived from this one: \<^verbatim>\<open>x >= y\<close> is
  \<^verbatim>\<open>!(x < y)\<close>.
\<close>

definition seqLess :: "SequenceNumber \<Rightarrow> SequenceNumber \<Rightarrow> bool" where
  "seqLess x y = (sint (x - y) < 0)"

text \<open>
  The ids \<open>xs\<close> lie in one window that starts at \<open>b\<close>: each is reached from \<open>b\<close> in
  fewer than \<open>2^31\<close> steps. On such ids \<open>seqLess\<close> is a linear order; on ids further
  apart it is not transitive. The theorems about ``earlier'' commands speak about ids of
  one window.
\<close>

definition window :: "SequenceNumber \<Rightarrow> SequenceNumber list \<Rightarrow> bool" where
  "window b xs = list_all (\<lambda>x. unat (x - b) < 2 ^ 31) xs"

subsection \<open>Frames, methods and messages\<close>

text \<open>
  What the functions read of a method body: which command it is (the invoker calls
  \<^verbatim>\<open>addPendingExecutionSync\<close> for \<^verbatim>\<open>execution.sync\<close>), \<^verbatim>\<open>isSync()\<close>,
  \<^verbatim>\<open>isContentBearing()\<close>, and whether a transfer asks for an explicit accept
  (\<^verbatim>\<open>Message::requiresAccept\<close>: the spec's \<^verbatim>\<open>requiresAccept\<close> flag of an envelope).
\<close>

datatype command = ExecutionSync | Command string

record AMQMethodBody =
  command :: command
  isSync :: bool
  isContentBearing :: bool
  acceptExplicit :: bool

datatype frame_body = MethodBody AMQMethodBody | HeaderBody | ContentBody string

record AMQFrame =
  bof :: bool
  eof :: bool
  bos :: bool
  eos :: bool
  body :: frame_body

text \<open>\<^verbatim>\<open>AMQFrame::getMethod()\<close>: null when the body is no method.\<close>

definition getMethod :: "AMQFrame \<Rightarrow> AMQMethodBody option" where
  "getMethod f = (case body f of MethodBody m \<Rightarrow> Some m | _ \<Rightarrow> None)"

record message =
  msgCommandId :: SequenceNumber
  msgFrames :: "AMQFrame list"
  msgPublisher :: bool

text \<open>\<^verbatim>\<open>msg->getFrames().getMethod()\<close>: the method of the frameset, null without one.\<close>

definition msgMethod :: "message \<Rightarrow> AMQMethodBody option" where
  "msgMethod m = (case List.map_filter getMethod (msgFrames m) of [] \<Rightarrow> None | b # _ \<Rightarrow> Some b)"

definition requiresAccept :: "message \<Rightarrow> bool" where
  "requiresAccept m = (case msgMethod m of None \<Rightarrow> False | Some b \<Rightarrow> acceptExplicit b)"

text \<open>
  The header frame \<^verbatim>\<open>handleContent\<close> adds to a frameset of one command frame:
  a default frame with \<^verbatim>\<open>setBof(false)\<close> and \<^verbatim>\<open>setEof(false)\<close>.
\<close>

definition dummyHeader :: AMQFrame where
  "dummyHeader = \<lparr> bof = False, eof = False, bos = True, eos = True, body = HeaderBody \<rparr>"

subsection \<open>The session record\<close>

text \<open>
  The calls that leave the class, as recorded in \<open>trace\<close>. \<open>CompleteRcvMsg t\<close> marks
  the call \<^verbatim>\<open>session->completeRcvMsg(msg)\<close> made for the pending receive \<open>t\<close> (the
  source logs ``receive completed for msg seq='' at both places).
\<close>

datatype call =
    ReceiverCompleted SequenceNumber
  | ExecutionResult SequenceNumber string
  | MessageAccept "SequenceNumber list"
  | SendCompletion
  | ExecutionSyncOut
  | MessageStop string
  | MessageFlow string nat nat
  | LogWarning string
  | SemanticHandle message
  | DeliverOut SequenceNumber nat
  | RequestIOProcessing
  | TimerAdd int
  | TimerCancel
  | SemanticClosed
  | SemanticDetached
  | CompleteRcvMsg nat

text \<open>The calls that put a command or control on the wire to the peer.\<close>

fun onWire :: "call \<Rightarrow> bool" where
  "onWire (ExecutionResult _ _) = True"
| "onWire (MessageAccept _) = True"
| "onWire SendCompletion = True"
| "onWire ExecutionSyncOut = True"
| "onWire (MessageStop _) = True"
| "onWire (MessageFlow _ _ _) = True"
| "onWire (DeliverOut _ _) = True"
| "onWire _ = False"

text \<open>
  \<^verbatim>\<open>SessionState::IncompleteRcvMsg\<close>: the nullable back-pointer to the session, the
  message, and whether \<^verbatim>\<open>msg->getReceiveCompletion().cancel()\<close> was called (after
  which the completion no longer invokes the callback).
\<close>

record IncompleteRcvMsg =
  sessionPtr :: bool
  pendingMsg :: message
  completionCancelled :: bool

text \<open>
  The session. \<open>handler\<close> is whether the handler pointer is set (\<^verbatim>\<open>isAttached()\<close>).
  \<open>receiverCurrent\<close>, \<open>receiverIncomplete\<close>, \<open>receiverCompletedToSend\<close> and
  \<open>senderCommandPoint\<close> are the base class's state behind \<^verbatim>\<open>receiverGetCurrent()\<close>,
  \<^verbatim>\<open>receiverGetIncomplete()\<close>, \<^verbatim>\<open>receiverCompleted()\<close> and
  \<^verbatim>\<open>senderGetCommandPoint()\<close>. A sequence set is the list of its members.
  \<open>rateFlowcontrol\<close> is the optional regulator, of a type \<open>'r\<close> left open (the class
  \<^verbatim>\<open>RateFlowcontrol\<close> is declared elsewhere in the repository); \<open>clientCredit\<close> is the counter
  of the management object, if there is one. \<open>pendings\<close> is the store of the
  \<^verbatim>\<open>IncompleteRcvMsg\<close> objects ever created: a pending receive is named by its index
  there, as the source names it by its address. \<open>incompleteRcvMsgs\<close> holds the keys of
  the registry map, \<open>scheduledRcvMsgs\<close> the deque shared with the I/O thread.
  \<open>destroyed\<close> is set by the destructor.
\<close>

record 'r session =
  handler :: bool
  receiverCurrent :: SequenceNumber
  receiverIncomplete :: "SequenceNumber list"
  receiverCompletedToSend :: "SequenceNumber list"
  senderCommandPoint :: "SequenceNumber \<times> 32 word"
  currentCommandComplete :: bool
  pendingExecutionSyncs :: "SequenceNumber list"
  accepted :: "SequenceNumber list"
  msgBuilder :: "message option"
  rateFlowcontrol :: "'r option"
  clientCredit :: "int option"
  flowControlTimer :: bool
  pendings :: "IncompleteRcvMsg list"
  incompleteRcvMsgs :: "nat list"
  scheduledRcvMsgs :: "nat list"
  destroyed :: bool
  trace :: "call list"

definition emit :: "call \<Rightarrow> 'r session \<Rightarrow> 'r session" where
  "emit c s = s\<lparr>trace := trace s @ [c]\<rparr>"

text \<open>Sequencing: the second step runs unless the first one threw.\<close>

definition andThen ::
  "('s \<Rightarrow> 'a outcome \<times> 's) \<Rightarrow> ('a \<Rightarrow> 's \<Rightarrow> 'b outcome \<times> 's) \<Rightarrow> 's \<Rightarrow> 'b outcome \<times> 's" where
  "andThen f g s = (case f s of (Throw e, s1) \<Rightarrow> (Throw e, s1) | (Return a, s1) \<Rightarrow> g a s1)"

subsection \<open>The base class and the handler\<close>

text \<open>
  Modelled from the spec: \<^verbatim>\<open>qpid::SessionState::receiverCompleted\<close> is declared
  elsewhere in the repository. ``\<^verbatim>\<open>receiverCompleted(id)\<close>: removes id from incomplete; adds to
  completed-to-send.'' Completing an unknown id changes nothing else.
\<close>

definition receiverCompleted :: "SequenceNumber \<Rightarrow> 'r session \<Rightarrow> 'r session" where
  "receiverCompleted cid s =
     emit (ReceiverCompleted cid)
       (s\<lparr>receiverIncomplete := removeAll cid (receiverIncomplete s),
          receiverCompletedToSend := List.insert cid (receiverCompletedToSend s)\<rparr>)"

text \<open>
  Modelled from the spec: the order inside the set of incomplete ids, whose class is
  declared elsewhere in the repository. \<open>lowest m xs\<close> is the least of \<open>m\<close> and the
  ids \<open>xs\<close>, found by comparing with \<open>seqLess\<close>.
\<close>

fun lowest :: "SequenceNumber \<Rightarrow> SequenceNumber list \<Rightarrow> SequenceNumber" where
  "lowest m [] = m"
| "lowest m (y # ys) = lowest (if seqLess y m then y else m) ys"

text \<open>
  Modelled from the spec: \<^verbatim>\<open>receiverGetIncomplete().front()\<close> is ``the lowest incomplete
  receiver id'', lowest in the order of the sequence. On an empty set the call is
  undefined.
\<close>

definition front :: "SequenceNumber list \<Rightarrow> SequenceNumber option" where
  "front xs = (case xs of [] \<Rightarrow> None | x # ys \<Rightarrow> Some (lowest x ys))"

text \<open>
  \<^verbatim>\<open>getProxy()\<close> asserts \<^verbatim>\<open>isAttached()\<close> before it hands out the handler's proxy;
  \<open>viaProxy c\<close> is one call \<open>c\<close> on that proxy.
\<close>

definition viaProxy :: "call \<Rightarrow> 'r session \<Rightarrow> unit outcome \<times> 'r session" where
  "viaProxy c s =
     (if handler s then (Return (), emit c s) else (Throw (AssertionFailed ''isAttached()''), s))"

text \<open>
  \<^verbatim>\<open>getClusterOrderProxy()\<close> and \<^verbatim>\<open>sendCompletion()\<close> go through the handler
  pointer without a check.
\<close>

definition viaHandler :: "call \<Rightarrow> 'r session \<Rightarrow> unit outcome \<times> 'r session" where
  "viaHandler c s =
     (if handler s then (Return (), emit c s) else (Throw (NullDereference ''handler''), s))"

definition sendCompletion :: "'r session \<Rightarrow> unit outcome \<times> 'r session" where
  "sendCompletion s = viaHandler SendCompletion s"

text \<open>\<^verbatim>\<open>SessionState::detach\<close> and \<^verbatim>\<open>SessionState::attach\<close>.\<close>

definition detach :: "'r session \<Rightarrow> 'r session" where
  "detach s = (emit SemanticDetached s)\<lparr>handler := False\<rparr>"

definition attach :: "'r session \<Rightarrow> 'r session" where
  "attach s = s\<lparr>handler := True\<rparr>"

subsection \<open>sendAcceptAndCompletion, addPendingExecutionSync, handleCommand\<close>

definition sendAcceptAndCompletion :: "'r session \<Rightarrow> unit outcome \<times> 'r session" where
  "sendAcceptAndCompletion s =
     (if accepted s \<noteq> [] then
        andThen (viaProxy (MessageAccept (accepted s)))
          (\<lambda>_ s1. sendCompletion (s1\<lparr>accepted := []\<rparr>)) s
      else sendCompletion s)"

definition addPendingExecutionSync :: "'r session \<Rightarrow> unit outcome \<times> 'r session" where
  "addPendingExecutionSync s =
     (let syncCommandId = receiverCurrent s in
      case front (receiverIncomplete s) of
        None \<Rightarrow> (Throw EmptySequenceSet, s)
      | Some low \<Rightarrow>
          if seqLess low syncCommandId then
            (Return (), s\<lparr>currentCommandComplete := False,
                          pendingExecutionSyncs := pendingExecutionSyncs s @ [syncCommandId]\<rparr>)
          else (Return (), s))"

text \<open>
  \<^verbatim>\<open>Invoker::Result\<close>: whether the adapter handled the method, and the result if it
  has one. The adapter and the semantic layer behind it are declared elsewhere in the repository and
  are a parameter: a function that may change the session and may throw. For
  \<^verbatim>\<open>execution.sync\<close> the invoker reaches \<^verbatim>\<open>addPendingExecutionSync\<close>.
\<close>

record invocation =
  wasHandled :: bool
  invResult :: "string option"

type_synonym 'r adapter = "AMQMethodBody \<Rightarrow> 'r session \<Rightarrow> invocation outcome \<times> 'r session"

definition invoke :: "'r adapter \<Rightarrow> AMQMethodBody \<Rightarrow> 'r session \<Rightarrow> invocation outcome \<times> 'r session" where
  "invoke adapter m s =
     (case command m of
        ExecutionSync \<Rightarrow>
          andThen addPendingExecutionSync
            (\<lambda>_ s1. (Return \<lparr> wasHandled = True, invResult = None \<rparr>, s1)) s
      | Command _ \<Rightarrow> adapter m s)"

definition handleCommand ::
  "'r adapter \<Rightarrow> AMQMethodBody \<Rightarrow> SequenceNumber \<Rightarrow> 'r session \<Rightarrow> unit outcome \<times> 'r session" where
  "handleCommand adapter m cid s =
     andThen (invoke adapter m)
       (\<lambda>invocation s2.
          let s3 = (if currentCommandComplete s2 then receiverCompleted cid s2 else s2) in
          if \<not> wasHandled invocation then (Throw (NotImplementedException ''Not implemented''), s3)
          else
            andThen
              (case invResult invocation of
                 Some r \<Rightarrow> viaProxy (ExecutionResult cid r)
               | None \<Rightarrow> (\<lambda>s4. (Return (), s4)))
              (\<lambda>_ s5.
                 if isSync m \<and> currentCommandComplete s5 then sendAcceptAndCompletion s5
                 else (Return (), s5)) s3)
       (s\<lparr>currentCommandComplete := True\<rparr>)"

subsection \<open>completeRcvMsg\<close>

text \<open>
  The loop of \<^verbatim>\<open>completeRcvMsg\<close> over the queue of delayed
  \<^verbatim>\<open>execution.sync\<close> commands; its first argument is \<^verbatim>\<open>callSendCompletion\<close>.
\<close>

function syncLoop :: "bool \<Rightarrow> 'r session \<Rightarrow> bool outcome \<times> 'r session" where
  "syncLoop callSendCompletion s =
     (case pendingExecutionSyncs s of
        [] \<Rightarrow> (Return callSendCompletion, s)
      | cid # rest \<Rightarrow>
          (case front (receiverIncomplete s) of
             None \<Rightarrow> (Throw EmptySequenceSet, s)
           | Some low \<Rightarrow>
               if \<not> seqLess low cid then
                 syncLoop True (receiverCompleted cid (s\<lparr>pendingExecutionSyncs := rest\<rparr>))
               else (Return callSendCompletion, s)))"
  by pat_completeness auto
termination
  by (relation "measure (\<lambda>(c, s). length (pendingExecutionSyncs s))")
     (auto simp: receiverCompleted_def emit_def)

declare syncLoop.simps [simp del]

definition completeRcvMsg :: "message \<Rightarrow> 'r session \<Rightarrow> unit outcome \<times> 'r session" where
  "completeRcvMsg msg s =
     (let s1 = receiverCompleted (msgCommandId msg) s;
          s2 = (if requiresAccept msg
                then s1\<lparr>accepted := List.insert (msgCommandId msg) (accepted s1)\<rparr> else s1)
      in andThen (syncLoop False)
           (\<lambda>callSendCompletion s3.
              case msgMethod msg of
                None \<Rightarrow> (Throw (NullDereference ''getMethod()''), s3)
              | Some m \<Rightarrow>
                  if isSync m then sendAcceptAndCompletion s3
                  else if callSendCompletion then sendCompletion s3
                  else (Return (), s3)) s2)"

subsection \<open>Pending receives\<close>

text \<open>
  Modelled from the spec: \<^verbatim>\<open>createPendingMsg\<close> is declared elsewhere in the repository.
  ``\<^verbatim>\<open>register(env) -> token\<close>: inserts and returns a stable token'': a new
  \<^verbatim>\<open>IncompleteRcvMsg\<close> pointing to this session, entered in the registry.
\<close>

definition createPendingMsg :: "message \<Rightarrow> 'r session \<Rightarrow> nat \<times> 'r session" where
  "createPendingMsg msg s =
     (length (pendings s),
      s\<lparr>pendings := pendings s @ [\<lparr> sessionPtr = True, pendingMsg = msg, completionCancelled = False \<rparr>],
        incompleteRcvMsgs := incompleteRcvMsgs s @ [length (pendings s)]\<rparr>)"

text \<open>
  \<^verbatim>\<open>IncompleteRcvMsg::operator() (bool sync)\<close> of the pending receive \<open>t\<close>. The body
  runs under the registry lock, apart from the call of \<^verbatim>\<open>completeRcvMsg\<close>.
\<close>

definition callback :: "nat \<Rightarrow> bool \<Rightarrow> 'r session \<Rightarrow> unit outcome \<times> 'r session" where
  "callback t sync s =
     (if \<not> t < length (pendings s) then (Throw InvalidPointer, s)
      else if \<not> sessionPtr (pendings s ! t) then (Throw (NullDereference ''session''), s)
      else if destroyed s then (Throw UseAfterFree, s)
      else if t \<in> set (incompleteRcvMsgs s) then
        (let s1 = s\<lparr>incompleteRcvMsgs := removeAll t (incompleteRcvMsgs s)\<rparr> in
         if handler s1 then
           if sync then completeRcvMsg (pendingMsg (pendings s ! t)) (emit (CompleteRcvMsg t) s1)
           else
             (let s2 = s1\<lparr>scheduledRcvMsgs := scheduledRcvMsgs s1 @ [t]\<rparr> in
              if length (scheduledRcvMsgs s2) = 1 then (Return (), emit RequestIOProcessing s2)
              else (Return (), s2))
         else (Return (), s1))
      else (Return (), s))"

text \<open>
  Modelled from the spec: the receive completion of a message
  (\<^verbatim>\<open>AsyncCompletion\<close>) is declared elsewhere in the repository. When the completion of the
  pending receive \<open>t\<close> fires it invokes the callback, unless it was cancelled:
  ``a completion arriving after cancel is a no-op''.
\<close>

definition completionFires :: "nat \<Rightarrow> bool \<Rightarrow> 'r session \<Rightarrow> unit outcome \<times> 'r session" where
  "completionFires t sync s =
     (if t < length (pendings s) \<and> completionCancelled (pendings s ! t) then (Return (), s)
      else callback t sync s)"

text \<open>
  \<^verbatim>\<open>IncompleteRcvMsg::scheduledCompleter\<close>, run on the I/O thread on the deque of the
  session. The first argument is the deque as it stands (equal to \<open>scheduledRcvMsgs\<close> of
  the state); the recursion is on it.
\<close>

fun drainScheduled :: "nat list \<Rightarrow> 'r session \<Rightarrow> unit outcome \<times> 'r session" where
  "drainScheduled [] s = (Return (), s\<lparr>scheduledRcvMsgs := []\<rparr>)"
| "drainScheduled (t # msgs) s =
     (let s1 = s\<lparr>scheduledRcvMsgs := msgs\<rparr> in
      if \<not> t < length (pendings s1) then (Throw InvalidPointer, s1)
      else if sessionPtr (pendings s1 ! t) \<and> destroyed s1 then (Throw UseAfterFree, s1)
      else if sessionPtr (pendings s1 ! t) \<and> handler s1 then
        (case completeRcvMsg (pendingMsg (pendings s1 ! t)) (emit (CompleteRcvMsg t) s1) of
           (Throw e, s2) \<Rightarrow> (Throw e, s2)
         | (Return _, s2) \<Rightarrow> drainScheduled msgs s2)
      else drainScheduled msgs s1)"

definition scheduledCompleter :: "'r session \<Rightarrow> unit outcome \<times> 'r session" where
  "scheduledCompleter s = drainScheduled (scheduledRcvMsgs s) s"

text \<open>\<^verbatim>\<open>IncompleteRcvMsg::cancel\<close> of the pending receive \<open>t\<close>.\<close>

definition cancel :: "nat \<Rightarrow> 'r session \<Rightarrow> 'r session" where
  "cancel t s =
     s\<lparr>pendings := (pendings s)[t := (pendings s ! t)\<lparr>completionCancelled := True, sessionPtr := False\<rparr>]\<rparr>"

text \<open>
  The destructor \<^verbatim>\<open>SessionState::~SessionState\<close>: the registry is copied and
  cleared, every pending receive of the copy is cancelled, the deque is cleared.
  (\<^verbatim>\<open>mgmtObject->resourceDestroy()\<close> touches nothing the model holds.)
\<close>

definition destroy :: "'r session \<Rightarrow> 'r session" where
  "destroy s =
     (let s1 = emit SemanticClosed s;
          s2 = (if flowControlTimer s1 then emit TimerCancel s1 else s1);
          copy = incompleteRcvMsgs s2;
          s3 = fold cancel copy (s2\<lparr>incompleteRcvMsgs := []\<rparr>)
      in s3\<lparr>scheduledRcvMsgs := [], destroyed := True\<rparr>)"

subsection \<open>Producer flow control\<close>

text \<open>
  The operations of \<^verbatim>\<open>RateFlowcontrol\<close> the session calls, as a parameter: the class
  is declared elsewhere in the repository, and the properties below hold for every implementation.
\<close>

record 'r rate_ops =
  flowStopped :: "'r \<Rightarrow> bool"
  receivedMessage :: "int \<Rightarrow> nat \<Rightarrow> 'r \<Rightarrow> nat \<times> 'r"
  sentCredit :: "int \<Rightarrow> nat \<Rightarrow> 'r \<Rightarrow> 'r"
  getRate :: "'r \<Rightarrow> nat"

text \<open>
  \<^verbatim>\<open>SessionState::processSendCredit\<close>; \<open>now\<close> is the reading of
  \<^verbatim>\<open>AbsTime::now()\<close>.
\<close>

definition processSendCredit ::
  "'r rate_ops \<Rightarrow> int \<Rightarrow> nat \<Rightarrow> 'r session \<Rightarrow> bool outcome \<times> 'r session" where
  "processSendCredit ops now msgs s =
     (case rateFlowcontrol s of
        None \<Rightarrow> (Throw (NullDereference ''rateFlowcontrol''), s)
      | Some r \<Rightarrow>
          if 0 < msgs \<and> flowStopped ops r then
            andThen (viaHandler (MessageStop ''''))
              (\<lambda>_ s1. (Return True, s1))
              (emit (LogWarning ''producer throttling violation'') s)
          else
            (case receivedMessage ops now msgs r of
               (credit, r1) \<Rightarrow>
                 let s1 = s\<lparr>rateFlowcontrol := Some r1,
                            clientCredit := map_option (\<lambda>c. c - int msgs) (clientCredit s)\<rparr> in
                 if 0 < credit then
                   andThen (viaHandler (MessageFlow '''' 0 credit))
                     (\<lambda>_ s2. (Return True,
                        s2\<lparr>rateFlowcontrol := Some (sentCredit ops now credit r1),
                           clientCredit := map_option (\<lambda>c. c + int credit) (clientCredit s2)\<rparr>)) s1
                 else (Return (\<not> flowStopped ops r1), s1)))"

subsection \<open>handleContent and handleIn\<close>

text \<open>
  Modelled from the spec: \<^verbatim>\<open>MessageBuilder\<close> is declared elsewhere in the repository.
  \<^verbatim>\<open>start(id)\<close> opens an envelope bound to the command id, \<^verbatim>\<open>handle(frame)\<close>
  appends the frame to the open envelope (``receiving a non-begin frame without an open
  envelope fails with ProtocolViolation''), \<^verbatim>\<open>end()\<close> closes it.
\<close>

definition builderStart :: "SequenceNumber \<Rightarrow> 'r session \<Rightarrow> 'r session" where
  "builderStart cid s = s\<lparr>msgBuilder := Some \<lparr> msgCommandId = cid, msgFrames = [], msgPublisher = False \<rparr>\<rparr>"

definition builderHandle :: "AMQFrame \<Rightarrow> 'r session \<Rightarrow> message outcome \<times> 'r session" where
  "builderHandle frame s =
     (case msgBuilder s of
        None \<Rightarrow> (Throw ProtocolViolation, s)
      | Some m \<Rightarrow>
          (let m1 = m\<lparr>msgFrames := msgFrames m @ [frame]\<rparr>
           in (Return m1, s\<lparr>msgBuilder := Some m1\<rparr>)))"

definition TIME_MSEC :: int where
  "TIME_MSEC = 1000000"

text \<open>
  The part of \<^verbatim>\<open>handleContent\<close> run at the end of a frameset. \<open>deferred\<close> says
  whether the semantic layer left the receive completion of the message outstanding: if
  not, \<^verbatim>\<open>getReceiveCompletion().end(...)\<close> invokes the callback at once with
  \<^verbatim>\<open>sync = true\<close>; if so, the completion fires later (\<open>completionFires\<close>).
\<close>

definition endOfFrameset :: "bool \<Rightarrow> AMQFrame \<Rightarrow> message \<Rightarrow> 'r session \<Rightarrow> unit outcome \<times> 'r session" where
  "endOfFrameset deferred frame msg0 s1 =
     (if \<not> handler s1 then (Throw (AssertionFailed ''isAttached()''), s1)
      else
        (let msg1 = (if bof frame then msg0\<lparr>msgFrames := msgFrames msg0 @ [dummyHeader]\<rparr> else msg0);
             msg = msg1\<lparr>msgPublisher := True\<rparr>;
             s2 = (emit (SemanticHandle msg) s1)\<lparr>msgBuilder := None\<rparr>
         in case createPendingMsg msg s2 of
              (t, s3) \<Rightarrow> if deferred then (Return (), s3) else callback t True s3))"

text \<open>The part of \<^verbatim>\<open>handleContent\<close> headed ``Handle producer session flow control''.\<close>

definition producerFlowControl :: "'r rate_ops \<Rightarrow> int \<Rightarrow> AMQFrame \<Rightarrow> 'r session \<Rightarrow> unit outcome \<times> 'r session" where
  "producerFlowControl ops now frame s4 =
     (if rateFlowcontrol s4 \<noteq> None \<and> bof frame \<and> bos frame then
        andThen (processSendCredit ops now 1)
          (\<lambda>ok s5.
             if ok then (Return (), s5)
             else
               (case rateFlowcontrol s5 of
                  None \<Rightarrow> (Throw (NullDereference ''rateFlowcontrol''), s5)
                | Some r \<Rightarrow>
                    if getRate ops r = 0 then (Throw DivisionByZero, s5)
                    else (Return (),
                      (emit (TimerAdd (min (TIME_SEC * 50 div int (getRate ops r)) (500 * TIME_MSEC))) s5)
                        \<lparr>flowControlTimer := True\<rparr>))) s4
      else (Return (), s4))"

text \<open>\<^verbatim>\<open>SessionState::handleContent\<close>.\<close>

definition handleContent ::
  "'r rate_ops \<Rightarrow> int \<Rightarrow> bool \<Rightarrow> AMQFrame \<Rightarrow> SequenceNumber \<Rightarrow> 'r session \<Rightarrow> unit outcome \<times> 'r session" where
  "handleContent ops now deferred frame cid s =
     andThen (builderHandle frame)
       (\<lambda>msg0.
          andThen
            (if eof frame \<and> eos frame then endOfFrameset deferred frame msg0
             else (\<lambda>s1. (Return (), s1)))
            (\<lambda>_. producerFlowControl ops now frame))
       (if bof frame \<and> bos frame then builderStart cid s else s)"

text \<open>\<^verbatim>\<open>SessionState::handleIn\<close>.\<close>

definition handleIn ::
  "'r rate_ops \<Rightarrow> 'r adapter \<Rightarrow> int \<Rightarrow> bool \<Rightarrow> AMQFrame \<Rightarrow> 'r session \<Rightarrow> unit outcome \<times> 'r session" where
  "handleIn ops adapter now deferred frame s =
     (let commandId = receiverCurrent s;
          m = getMethod frame
      in case m of
           None \<Rightarrow> handleContent ops now deferred frame commandId s
         | Some mb \<Rightarrow>
             if isContentBearing mb then handleContent ops now deferred frame commandId s
             else if bof frame \<and> eof frame then handleCommand adapter mb commandId s
             else (Throw (InternalErrorException ''Cannot handle multi-frame command segments yet''), s))"

subsection \<open>deliver\<close>

text \<open>
  \<^verbatim>\<open>assert\<close> is the macro of \<^verbatim>\<open><cassert>\<close>: a build with \<^verbatim>\<open>NDEBUG\<close> defined
  compiles the check away, any other build aborts when the condition is false. \<open>ndebug\<close>
  says which build runs.
\<close>

definition assertion :: "bool \<Rightarrow> bool \<Rightarrow> string \<Rightarrow> 's \<Rightarrow> unit outcome \<times> 's" where
  "assertion ndebug holds what s =
     (if ndebug \<or> holds then (Return (), s) else (Throw (AssertionFailed what), s))"

text \<open>
  \<^verbatim>\<open>getConnection()\<close> and \<^verbatim>\<open>getProxy()\<close> in either build:
  \<^verbatim>\<open>assert(isAttached())\<close>, then the connection or the proxy of the handler, through
  the handler pointer.
\<close>

definition getConnection :: "bool \<Rightarrow> 'r session \<Rightarrow> unit outcome \<times> 'r session" where
  "getConnection ndebug s =
     andThen (assertion ndebug (handler s) ''isAttached()'')
       (\<lambda>_ s1. if handler s1 then (Return (), s1) else (Throw (NullDereference ''handler''), s1)) s"

definition getProxy :: "bool \<Rightarrow> 'r session \<Rightarrow> unit outcome \<times> 'r session" where
  "getProxy ndebug s =
     andThen (assertion ndebug (handler s) ''isAttached()'')
       (\<lambda>_ s1. if handler s1 then (Return (), s1) else (Throw (NullDereference ''handler''), s1)) s"

text \<open>
  Modelled from the spec: \<^verbatim>\<open>DeliveryRecord::deliver\<close> and the bookkeeping of the send
  point in the base class, which it drives through the handler, are declared elsewhere in
  the repository. ``send at the current command id, advance the send point by one
  command''; ``Send command point advances by exactly one command on each outbound delivery
  and the byte offset returns to zero.'' The successor of a command id wraps.
\<close>

definition recordDeliver :: "SequenceNumber \<Rightarrow> nat \<Rightarrow> 'r session \<Rightarrow> 'r session" where
  "recordDeliver commandId frameMax s =
     (emit (DeliverOut commandId frameMax) s)
       \<lparr>senderCommandPoint := (fst (senderCommandPoint s) + 1, 0)\<rparr>"

text \<open>
  \<^verbatim>\<open>SessionState::deliver\<close>; \<open>frameMax\<close> is what \<^verbatim>\<open>getFrameMax()\<close> of the
  connection returns. \<^verbatim>\<open>commandId+1\<close> in the second assertion is the successor of a
  32-bit id: it wraps.
\<close>

definition deliver :: "bool \<Rightarrow> nat \<Rightarrow> bool \<Rightarrow> 'r session \<Rightarrow> unit outcome \<times> 'r session" where
  "deliver ndebug frameMax sync s =
     andThen (getConnection ndebug)
       (\<lambda>_. andThen
          (\<lambda>s0. assertion ndebug (snd (senderCommandPoint s0) = 0)
                   ''senderGetCommandPoint().offset == 0'' s0)
          (\<lambda>_ s0.
             let commandId = fst (senderCommandPoint s0) in
             andThen (getProxy ndebug)
               (\<lambda>_ s1.
                  let s2 = recordDeliver commandId frameMax s1 in
                  andThen (assertion ndebug (senderCommandPoint s2 = (commandId + 1, 0))
                             ''senderGetCommandPoint() == SessionPoint(commandId+1, 0)'')
                    (\<lambda>_ s3.
                       if sync then
                         andThen (getProxy ndebug) (\<lambda>_ s4. (Return (), emit ExecutionSyncOut s4)) s3
                       else (Return (), s3)) s2) s0)) s"

subsection \<open>Runs of the pending-receive operations\<close>

text \<open>
  What can happen to the registry of a session, one step at a time: a message is
  registered (\<open>createPendingMsg\<close>), the receive completion of a pending receive fires
  with \<^verbatim>\<open>sync\<close> true or false, the I/O thread runs the posted
  \<^verbatim>\<open>scheduledCompleter\<close>, the session is detached, attached or destroyed. Methods of
  a destroyed session are not called; completions may still fire and the posted drain may
  still run. The exception a step may throw is dropped, the state it leaves is kept.
\<close>

datatype session_op = Register message | Fire nat bool | Drain | Detach | Attach | Destroy

fun applyOp :: "session_op \<Rightarrow> 'r session \<Rightarrow> 'r session" where
  "applyOp (Register m) s = (if destroyed s then s else snd (createPendingMsg m s))"
| "applyOp (Fire t sync) s = snd (completionFires t sync s)"
| "applyOp Drain s = snd (scheduledCompleter s)"
| "applyOp Detach s = (if destroyed s then s else detach s)"
| "applyOp Attach s = (if destroyed s then s else attach s)"
| "applyOp Destroy s = (if destroyed s then s else destroy s)"

definition runOps :: "session_op list \<Rightarrow> 'r session \<Rightarrow> 'r session" where
  "runOps ops s = fold applyOp ops s"

text \<open>The registry of a session the constructor has just built.\<close>

definition constructed :: "'r session \<Rightarrow> bool" where
  "constructed s \<longleftrightarrow>
     pendings s = [] \<and> incompleteRcvMsgs s = [] \<and> scheduledRcvMsgs s = [] \<and> trace s = [] \<and> \<not> destroyed s"

text \<open>How often \<^verbatim>\<open>completeRcvMsg\<close> was called for the pending receive \<open>t\<close>.\<close>

definition completions :: "nat \<Rightarrow> 'r session \<Rightarrow> nat" where
  "completions t s = count_list (trace s) (CompleteRcvMsg t)"

text \<open>
  The invariant of the registry: a pending receive is in the registry or in the deque at
  most once and not in both, and then it exists and was never completed; a registered one
  is not cancelled; none was completed twice; a cancelled one has lost its session
  pointer; a destroyed session has an empty registry and deque.
\<close>

definition registryInv :: "'r session \<Rightarrow> bool" where
  "registryInv s \<longleftrightarrow>
     distinct (incompleteRcvMsgs s) \<and> distinct (scheduledRcvMsgs s) \<and>
     set (incompleteRcvMsgs s) \<inter> set (scheduledRcvMsgs s) = {} \<and>
     (\<forall>t\<in>set (incompleteRcvMsgs s).
        t < length (pendings s) \<and> completions t s = 0 \<and> \<not> completionCancelled (pendings s ! t)) \<and>
     (\<forall>t\<in>set (scheduledRcvMsgs s). t < length (pendings s) \<and> completions t s = 0) \<and>
     (\<forall>t. completions t s \<le> 1) \<and>
     (\<forall>t. length (pendings s) \<le> t \<longrightarrow> completions t s = 0) \<and>
     (\<forall>p\<in>set (pendings s). sessionPtr p = (\<not> completionCancelled p)) \<and>
     (destroyed s \<longrightarrow> incompleteRcvMsgs s = [] \<and> scheduledRcvMsgs s = [])"

subsection \<open>Concrete sessions, methods and collaborators for the examples\<close>

text \<open>A session as the constructor leaves it: attached, nothing received or pending.\<close>

definition freshSession :: "'r session" where
  "freshSession = \<lparr> handler = True, receiverCurrent = 0, receiverIncomplete = [],
     receiverCompletedToSend = [], senderCommandPoint = (0, 0), currentCommandComplete = True,
     pendingExecutionSyncs = [], accepted = [], msgBuilder = None, rateFlowcontrol = None,
     clientCredit = None, flowControlTimer = False, pendings = [], incompleteRcvMsgs = [],
     scheduledRcvMsgs = [], destroyed = False, trace = [] \<rparr>"

definition syncMethod :: AMQMethodBody where
  "syncMethod = \<lparr> command = ExecutionSync, isSync = False, isContentBearing = False, acceptExplicit = False \<rparr>"

definition transferMethod :: AMQMethodBody where
  "transferMethod = \<lparr> command = Command ''message.transfer'', isSync = False, isContentBearing = True,
     acceptExplicit = True \<rparr>"

definition queryMethod :: AMQMethodBody where
  "queryMethod = \<lparr> command = Command ''queue.query'', isSync = True, isContentBearing = False,
     acceptExplicit = False \<rparr>"

definition methodFrame :: "AMQMethodBody \<Rightarrow> AMQFrame" where
  "methodFrame m = \<lparr> bof = True, eof = True, bos = True, eos = True, body = MethodBody m \<rparr>"

definition transferMsg :: "SequenceNumber \<Rightarrow> message" where
  "transferMsg cid = \<lparr> msgCommandId = cid, msgFrames = [methodFrame transferMethod, dummyHeader],
     msgPublisher = True \<rparr>"

text \<open>An adapter that handles every method and answers with a result, and one that handles none.\<close>

definition answering :: "string \<Rightarrow> 'r adapter" where
  "answering r m s = (Return \<lparr> wasHandled = True, invResult = Some r \<rparr>, s)"

definition unknownCommand :: "'r adapter" where
  "unknownCommand m s = (Return \<lparr> wasHandled = False, invResult = None \<rparr>, s)"

text \<open>
  A regulator whose state is the credit the producer still holds: stopped at zero, never
  granting on a received message.
\<close>

definition creditOps :: "nat rate_ops" where
  "creditOps = \<lparr> flowStopped = (\<lambda>r. r = 0), receivedMessage = (\<lambda>now n r. (0, r - n)),
     sentCredit = (\<lambda>now n r. r + n), getRate = (\<lambda>r. 10) \<rparr>"

text \<open>
  Two messages are registered; the first completes on the session thread, and its
  completion fires once more; the second completes from another thread and is scheduled;
  the session is detached; a third message is registered.
\<close>

definition exampleOps :: "session_op list" where
  "exampleOps = [Register (transferMsg 1), Register (transferMsg 2), Fire 0 True, Fire 0 True,
     Fire 1 False, Detach, Register (transferMsg 3)]"

section \<open>Properties of the reconnect engine\<close>

subsection \<open>The URL list\<close>

lemma merge_distinct: "distinct l \<Longrightarrow> distinct (merge v l)"
  by (simp add: merge_def)

lemma merge_prefix: "\<exists>added. merge v l = l @ added"
  by (simp add: merge_def)

lemma mergeUrls_distinct: "distinct l \<Longrightarrow> distinct (mergeUrls hosts l)"
  by (induction hosts arbitrary: l) (simp_all add: merge_distinct)

lemma mergeUrls_prefix: "\<exists>added. mergeUrls hosts l = l @ added"
proof (induction hosts arbitrary: l)
  case Nil
  show ?case by simp
next
  case (Cons u hosts)
  obtain a where a: "merge u l = l @ a" using merge_prefix by blast
  obtain b where "mergeUrls hosts (l @ a) = (l @ a) @ b" using Cons.IH by blast
  then show ?case using a by simp
qed

text \<open>
  C6. The claim: after any constructor options and known-host merges the URL list has no
  duplicate and starts with the caller's URL. \<open>merge\<close> keeps a list free of duplicates
  (\<open>merge_distinct\<close>, \<open>mergeUrls_distinct\<close>) and only appends
  (\<open>merge_prefix\<close>, \<open>mergeUrls_prefix\<close>), but the constructor inserts the caller's
  URL at the front after the options were applied, without the membership test of
  \<open>merge\<close>: with the option \<^verbatim>\<open>reconnect-urls\<close> naming the caller's own URL the
  list holds that URL twice.
\<close>

theorem constructor_duplicates_own_url:
  "\<exists>c. ConnectionImpl noSettings ''amqp://a'' [(''reconnect-urls'', VString ''amqp://a'')] = Inr c
     \<and> urls c = [''amqp://a'', ''amqp://a''] \<and> \<not> distinct (urls c)"
  by (simp add: ConnectionImpl_def setOption_def assignString_def merge_def initialConnection_def)

subsection \<open>The connect loop\<close>

lemma tryUrls_cfg:
  "tryUrls e us c = (r, c') \<Longrightarrow>
     reconnect c' = reconnect c \<and> limit c' = limit c \<and> timeout c' = timeout c \<and>
     retries c' = retries c \<and> slept c' = slept c \<and>
     minReconnectInterval c' = minReconnectInterval c \<and> maxReconnectInterval c' = maxReconnectInterval c"
  by (induction us arbitrary: c) (auto simp: Let_def resetSessions_def split: if_splits reset_outcome.splits)

lemma tryConnect_cfg:
  "tryConnect e c = (r, c') \<Longrightarrow>
     reconnect c' = reconnect c \<and> limit c' = limit c \<and> timeout c' = timeout c \<and>
     retries c' = retries c \<and> slept c' = slept c \<and>
     minReconnectInterval c' = minReconnectInterval c \<and> maxReconnectInterval c' = maxReconnectInterval c"
  unfolding tryConnect_def by (rule tryUrls_cfg)

lemma backoff_shift: "backoff i hi (Suc k) = backoff (min (i * 2) hi) hi k"
  by (induction k) simp_all

lemma backoff_cons: "i # map (backoff (min (i * 2) hi) hi) [0..<n] = map (backoff i hi) [0..<Suc n]"
  by (simp add: map_upt_Suc backoff_shift del: upt_Suc backoff.simps(2))

lemma int64_id: "- 9223372036854775808 \<le> n \<Longrightarrow> n < 9223372036854775808 \<Longrightarrow> int64 n = n"
  by (simp add: int64_def)

text \<open>
  While the doubled interval fits in 64 bits (intervals from \<open>0\<close> to below \<open>2^62\<close>) the
  sleeps of the loop are the back-off sequence of the spec.
\<close>

lemma connectLoop_slept:
  "connectLoop started i es c = (r, c') \<Longrightarrow>
   0 \<le> i \<Longrightarrow> i < 4611686018427387904 \<Longrightarrow>
   0 \<le> maxReconnectInterval c \<Longrightarrow> maxReconnectInterval c < 4611686018427387904 \<Longrightarrow>
     \<exists>n \<le> length es. slept c' = slept c @ map (backoff i (maxReconnectInterval c)) [0..<n] \<and>
        (r = Retrying \<longrightarrow> n = length es)"
proof (induction es arbitrary: i c)
  case Nil
  then show ?case by simp
next
  case (Cons e es)
  obtain t c1 where tc: "tryConnect e c = (t, c1)" by (cases "tryConnect e c")
  note cfg = tryConnect_cfg [OF tc]
  show ?case
  proof (cases "t = Inr False \<and> reconnect c1 \<and> \<not> (0 \<le> limit c1 \<and> limit c1 \<le> retries c1) \<and>
      \<not> expired started (timeout c1) (clock e)")
    case False
    then have "slept c' = slept c \<and> r \<noteq> Retrying"
      using Cons.prems(1) tc cfg
      by (auto simp: Let_def split: sum.splits bool.splits if_splits)
    then show ?thesis by (intro exI [of _ 0]) simp
  next
    case True
    define c2 where "c2 = (if 0 \<le> limit c1 then c1\<lparr>retries := retries c1 + 1\<rparr> else c1)"
    have rec: "connectLoop started (min (int64 (i * 2)) (maxReconnectInterval c2)) es (c2\<lparr>slept := slept c2 @ [i]\<rparr>) = (r, c')"
      using Cons.prems(1) tc True by (auto simp: Let_def c2_def)
    have mx: "maxReconnectInterval c2 = maxReconnectInterval c" and sl: "slept c2 = slept c"
      using cfg by (auto simp: c2_def)
    have dbl: "int64 (i * 2) = i * 2" using Cons.prems(2,3) by (intro int64_id) simp_all
    have rng: "0 \<le> min (i * 2) (maxReconnectInterval c)"
      "min (i * 2) (maxReconnectInterval c) < 4611686018427387904"
      using Cons.prems(2,4,5) by simp_all
    from Cons.IH [OF rec [unfolded dbl mx]] rng Cons.prems(4,5)
    obtain n where n: "n \<le> length es"
      "slept c' = (slept c @ [i]) @ map (backoff (min (i * 2) (maxReconnectInterval c)) (maxReconnectInterval c)) [0..<n]"
      "r = Retrying \<longrightarrow> n = length es"
      by (auto simp: mx sl)
    have "slept c' = slept c @ map (backoff i (maxReconnectInterval c)) [0..<Suc n]"
      using n(2) backoff_cons [of i "maxReconnectInterval c" n] by (simp del: upt_Suc backoff.simps)
    then show ?thesis using n(1,3) by (intro exI [of _ "Suc n"]) simp
  qed
qed

lemma connectLoop_retries:
  "connectLoop started i es c = (r, c') \<Longrightarrow>
     (r = Connected \<longrightarrow> retries c' = 0) \<and>
     (0 \<le> limit c \<longrightarrow> int (length (slept c')) \<le> int (length (slept c)) + max 0 (limit c - retries c))"
proof (induction es arbitrary: i c)
  case Nil
  then show ?case by auto
next
  case (Cons e es)
  obtain t c1 where tc: "tryConnect e c = (t, c1)" by (cases "tryConnect e c")
  note cfg = tryConnect_cfg [OF tc]
  show ?case
  proof (cases "t = Inr False \<and> reconnect c1 \<and> \<not> (0 \<le> limit c1 \<and> limit c1 \<le> retries c1) \<and>
      \<not> expired started (timeout c1) (clock e)")
    case False
    then have "slept c' = slept c \<and> (r = Connected \<longrightarrow> retries c' = 0)"
      using Cons.prems(1) tc cfg
      by (auto simp: Let_def split: sum.splits bool.splits if_splits)
    then show ?thesis by auto
  next
    case True
    define c2 where "c2 = (if 0 \<le> limit c1 then c1\<lparr>retries := retries c1 + 1\<rparr> else c1)"
    have rec: "connectLoop started (min (int64 (i * 2)) (maxReconnectInterval c2)) es (c2\<lparr>slept := slept c2 @ [i]\<rparr>) = (r, c')"
      using Cons.prems(1) tc True by (auto simp: Let_def c2_def)
    have lim: "limit c2 = limit c" and sl: "slept c2 = slept c"
      and rt: "0 \<le> limit c \<Longrightarrow> retries c2 = retries c + 1 \<and> retries c < limit c"
      using cfg True by (auto simp: c2_def)
    from Cons.IH [OF rec] show ?thesis
      using lim sl rt by (auto simp: max_def split: if_splits)
  qed
qed

lemma tryUrls_unreachable:
  "unreachable us e \<Longrightarrow> fst (tryUrls e us c) = Inr False \<and> urls (snd (tryUrls e us c)) = urls c"
  by (induction us arbitrary: c) (auto simp: unreachable_def Let_def)

lemma connectLoop_forever:
  "reconnect c \<Longrightarrow> limit c < 0 \<Longrightarrow> timeout c < 0 \<Longrightarrow> list_all (unreachable (urls c)) es \<Longrightarrow>
     fst (connectLoop started i es c) = Retrying"
proof (induction es arbitrary: i c)
  case Nil
  then show ?case by simp
next
  case (Cons e es)
  obtain t c1 where tc: "tryConnect e c = (t, c1)" by (cases "tryConnect e c")
  note cfg = tryConnect_cfg [OF tc]
  have t: "t = Inr False" and u: "urls c1 = urls c"
    using tryUrls_unreachable [of "urls c" e c] Cons.prems(4) tc by (simp_all add: tryConnect_def)
  have "fst (connectLoop started (min (int64 (i * 2)) (maxReconnectInterval c1)) es (c1\<lparr>slept := slept c1 @ [i]\<rparr>)) = Retrying"
    using Cons.prems cfg u by (intro Cons.IH) auto
  then show ?case
    using tc t cfg Cons.prems by (simp add: expired_def)
qed

text \<open>What the loop does after one failed attempt, as the source computes it.\<close>

lemma connectLoop_step:
  assumes tc: "tryConnect e c = (Inr False, c1)"
  shows "connectLoop started i (e # es) c =
     (if \<not> reconnect c then
        (Failed (TransportFailure ''Failed to connect (reconnect disabled)''), c1)
      else if 0 \<le> limit c \<and> limit c \<le> retries c then
        (Failed (TransportFailure ''Failed to connect within reconnect limit''),
         c1\<lparr>retries := retries c + 1\<rparr>)
      else if timeout c = 0 \<or>
              (0 < timeout c \<and> int64 (timeout c * TIME_SEC) < int64 (clock e - started)) then
        (Failed (TransportFailure ''Failed to connect within reconnect timeout''),
         (if 0 \<le> limit c then c1\<lparr>retries := retries c + 1\<rparr> else c1))
      else connectLoop started (min (int64 (i * 2)) (maxReconnectInterval c)) es
             ((if 0 \<le> limit c then c1\<lparr>retries := retries c + 1\<rparr> else c1)\<lparr>slept := slept c @ [i]\<rparr>))"
  using tc tryConnect_cfg [OF tc] by (auto simp: Let_def expired_def)

text \<open>
  Where no 64-bit operation overflows, the loop follows the policy of the spec: intervals
  from \<open>0\<close> to below \<open>2^62\<close> seconds, a timeout of at most \<open>9223372036\<close> seconds (the
  largest whose count of nanoseconds fits in 64 bits), clock readings whose difference fits.
  The sleeps of one call of \<open>connect\<close> are an initial segment of \<open>backoff\<close>, one sleep
  per failed attempt while the loop goes on; after a failed attempt the loop raises
  \<^verbatim>\<open>TransportFailure\<close> instead of sleeping when reconnect is disabled, when the limit is
  not negative and the retry count has reached it, or when the timeout is zero or is
  positive and less than the time since the start; otherwise it sleeps the current
  interval and retries with the doubled, capped one. With a negative limit and a negative
  timeout it retries as long as no URL can be opened.
\<close>

lemma connect_backoff_in_range:
  "(connect started es c = (r, c') \<and>
    0 \<le> minReconnectInterval c \<and> minReconnectInterval c < 4611686018427387904 \<and>
    0 \<le> maxReconnectInterval c \<and> maxReconnectInterval c < 4611686018427387904 \<longrightarrow>
      (\<exists>n \<le> length es.
         slept c' = slept c @ map (backoff (minReconnectInterval c) (maxReconnectInterval c)) [0..<n] \<and>
         (r = Retrying \<longrightarrow> n = length es)))
   \<and> (tryConnect e c = (Inr False, c1) \<and> timeout c \<le> 9223372036 \<and>
       - 9223372036854775808 \<le> clock e - started \<and> clock e - started < 9223372036854775808 \<and>
       0 \<le> i \<and> i < 4611686018427387904 \<longrightarrow>
        connectLoop started i (e # es) c =
          (if \<not> reconnect c then
             (Failed (TransportFailure ''Failed to connect (reconnect disabled)''), c1)
           else if 0 \<le> limit c \<and> limit c \<le> retries c then
             (Failed (TransportFailure ''Failed to connect within reconnect limit''),
              c1\<lparr>retries := retries c + 1\<rparr>)
           else if timeout c = 0 \<or> (0 < timeout c \<and> timeout c * TIME_SEC < clock e - started) then
             (Failed (TransportFailure ''Failed to connect within reconnect timeout''),
              (if 0 \<le> limit c then c1\<lparr>retries := retries c + 1\<rparr> else c1))
           else connectLoop started (min (i * 2) (maxReconnectInterval c)) es
                  ((if 0 \<le> limit c then c1\<lparr>retries := retries c + 1\<rparr> else c1)\<lparr>slept := slept c @ [i]\<rparr>)))
   \<and> (reconnect c \<and> limit c < 0 \<and> timeout c < 0 \<and> list_all (unreachable (urls c)) es \<longrightarrow>
        fst (connect started es c) = Retrying)"
proof (intro conjI impI)
  assume a: "connect started es c = (r, c') \<and>
    0 \<le> minReconnectInterval c \<and> minReconnectInterval c < 4611686018427387904 \<and>
    0 \<le> maxReconnectInterval c \<and> maxReconnectInterval c < 4611686018427387904"
  then have "connectLoop started (minReconnectInterval c) es c = (r, c')" by (simp add: connect_def)
  from connectLoop_slept [OF this] a
  show "\<exists>n \<le> length es.
         slept c' = slept c @ map (backoff (minReconnectInterval c) (maxReconnectInterval c)) [0..<n] \<and>
         (r = Retrying \<longrightarrow> n = length es)"
    by blast
next
  assume a: "tryConnect e c = (Inr False, c1) \<and> timeout c \<le> 9223372036 \<and>
       - 9223372036854775808 \<le> clock e - started \<and> clock e - started < 9223372036854775808 \<and>
       0 \<le> i \<and> i < 4611686018427387904"
  then have tc: "tryConnect e c = (Inr False, c1)" by simp
  have used: "int64 (clock e - started) = clock e - started" using a by (intro int64_id) simp_all
  have dbl: "int64 (i * 2) = i * 2" using a by (intro int64_id) simp_all
  have allowed: "int64 (timeout c * TIME_SEC) = timeout c * TIME_SEC" if "0 < timeout c"
    using that a by (intro int64_id) (simp_all add: TIME_SEC_def)
  show "connectLoop started i (e # es) c =
          (if \<not> reconnect c then
             (Failed (TransportFailure ''Failed to connect (reconnect disabled)''), c1)
           else if 0 \<le> limit c \<and> limit c \<le> retries c then
             (Failed (TransportFailure ''Failed to connect within reconnect limit''),
              c1\<lparr>retries := retries c + 1\<rparr>)
           else if timeout c = 0 \<or> (0 < timeout c \<and> timeout c * TIME_SEC < clock e - started) then
             (Failed (TransportFailure ''Failed to connect within reconnect timeout''),
              (if 0 \<le> limit c then c1\<lparr>retries := retries c + 1\<rparr> else c1))
           else connectLoop started (min (i * 2) (maxReconnectInterval c)) es
                  ((if 0 \<le> limit c then c1\<lparr>retries := retries c + 1\<rparr> else c1)\<lparr>slept := slept c @ [i]\<rparr>))"
  proof (cases "0 < timeout c")
    case True
    show ?thesis unfolding connectLoop_step [OF tc] used dbl allowed [OF True] ..
  next
    case False
    then show ?thesis unfolding connectLoop_step [OF tc] used dbl by simp
  qed
next
  assume "reconnect c \<and> limit c < 0 \<and> timeout c < 0 \<and> list_all (unreachable (urls c)) es"
  then show "fst (connect started es c) = Retrying"
    unfolding connect_def by (intro connectLoop_forever) auto
qed

lemma down_fails: "tryConnect (brokerDown t) backoffConnection = (Inr False, backoffConnection)"
  by (simp add: tryConnect_def backoffConnection_def brokerDown_def initialConnection_def)

text \<open>Scenario S4 of the spec: five failed attempts with intervals 1 to 8.\<close>

lemma backoff_run:
  "connect 0 (replicate 5 (brokerDown 0)) backoffConnection = (Retrying, backoffConnection\<lparr>slept := [1, 2, 4, 8, 8]\<rparr>)"
  by (simp add: connect_def tryConnect_def backoffConnection_def brokerDown_def initialConnection_def
     expired_def int64_def numeral_eq_Suc)

text \<open>
  C5. The policy holds where no 64-bit operation overflows (\<open>connect_backoff_in_range\<close>),
  not for every timeout: \<^verbatim>\<open>expired\<close> multiplies the timeout by \<^verbatim>\<open>TIME_SEC\<close> in 64
  bits, and from \<^verbatim>\<open>reconnect-timeout\<close> \<open>9223372037\<close> on the product wraps to a negative
  duration. A connection built with reconnect enabled and that timeout gives up at the
  first failed attempt, one nanosecond after the start, without sleeping, though the time
  since the start does not exceed the timeout and the timeout is neither zero nor
  negative. With the timeout one second shorter the same attempt is followed by a sleep
  of \<^verbatim>\<open>reconnect-interval-min\<close> and a retry.
\<close>

theorem connect_timeout_overflow:
  "\<exists>c. ConnectionImpl noSettings ''amqp://a''
          [(''reconnect'', VBool True), (''reconnect-timeout'', VInt 9223372037)] = Inr c
     \<and> reconnect c \<and> timeout c = 9223372037 \<and> limit c < 0
     \<and> \<not> timeout c * TIME_SEC < 1 - 0
     \<and> connect 0 [brokerDown 1] c
         = (Failed (TransportFailure ''Failed to connect within reconnect timeout''), c)
     \<and> slept c = []
     \<and> connect 0 [brokerDown 1] (c\<lparr>timeout := 9223372036\<rparr>)
         = (Retrying, c\<lparr>timeout := 9223372036, slept := [3]\<rparr>)"
  by (simp add: ConnectionImpl_def setOption_def assignBool_def assignInt_def initialConnection_def
      connect_def tryConnect_def brokerDown_def expired_def int64_def TIME_SEC_def)

text \<open>
  The doubling \<^verbatim>\<open>i * 2\<close> wraps in the same way: with \<^verbatim>\<open>reconnect-interval-min\<close>
  \<open>2^62\<close> and \<^verbatim>\<open>reconnect-interval-max\<close> \<open>2^63 - 1\<close> the second interval passed to
  \<^verbatim>\<open>sleep\<close> is \<open>- 2^63\<close>, not the maximum.
\<close>

lemma connect_doubling_overflow:
  "connect 0 [brokerDown 0, brokerDown 0]
     ((initialConnection noSettings)\<lparr>reconnect := True, minReconnectInterval := 4611686018427387904,
        maxReconnectInterval := 9223372036854775807, urls := [''amqp://a'']\<rparr>)
   = (Retrying,
      (initialConnection noSettings)\<lparr>reconnect := True, minReconnectInterval := 4611686018427387904,
        maxReconnectInterval := 9223372036854775807, urls := [''amqp://a''],
        slept := [4611686018427387904, - 9223372036854775808]\<rparr>)"
  by (simp add: connect_def tryConnect_def brokerDown_def initialConnection_def expired_def int64_def)

text \<open>
  C10. A call of \<open>connect\<close> that ends with a successful \<open>tryConnect\<close> leaves the retry
  counter at zero; and a call that starts with the counter at zero and a limit that is not
  negative sleeps (tolerates a failed attempt) at most \<^verbatim>\<open>reconnect-limit\<close> times:
  the limit bounds the failures of one outage, not those of the connection's lifetime.
\<close>

theorem connect_success_resets_retries:
  "connect started es c = (r, c') \<longrightarrow>
     (r = Connected \<longrightarrow> retries c' = 0) \<and>
     (0 \<le> limit c \<and> retries c = 0 \<longrightarrow> int (length (slept c')) \<le> int (length (slept c)) + limit c)"
proof
  assume "connect started es c = (r, c')"
  from connectLoop_retries [OF this [unfolded connect_def]]
  show "(r = Connected \<longrightarrow> retries c' = 0) \<and>
     (0 \<le> limit c \<and> retries c = 0 \<longrightarrow> int (length (slept c')) \<le> int (length (slept c)) + limit c)"
    by auto
qed

lemma outage1:
  "connect 0 [brokerDown 0, brokerDown 0, brokerUp []] limitedConnection = (Connected, limitedConnection\<lparr>slept := [3, 6]\<rparr>)"
  by (simp add: connect_def tryConnect_def limitedConnection_def brokerDown_def brokerUp_def initialConnection_def
     expired_def int64_def resetSessions_def)

lemma outage2:
  "connect 0 [brokerDown 0, brokerDown 0, brokerUp []] (limitedConnection\<lparr>slept := [3, 6]\<rparr>)
     = (Connected, limitedConnection\<lparr>slept := [3, 6, 3, 6]\<rparr>)"
  by (simp add: connect_def tryConnect_def limitedConnection_def brokerDown_def brokerUp_def initialConnection_def
     expired_def int64_def resetSessions_def)

theorem connect_success_resets_retries_witness:
  "connect 0 [brokerDown 0, brokerDown 0, brokerUp []] limitedConnection
     = (Connected, limitedConnection\<lparr>slept := [3, 6]\<rparr>)
   \<and> retries (limitedConnection\<lparr>slept := [3, 6]\<rparr>) = 0
   \<and> 0 \<le> limit limitedConnection \<and> retries limitedConnection = 0
   \<and> int (length (slept (limitedConnection\<lparr>slept := [3, 6]\<rparr>)))
        \<le> int (length (slept limitedConnection)) + limit limitedConnection
   \<and> connect 0 [brokerDown 0, brokerDown 0, brokerUp []] (limitedConnection\<lparr>slept := [3, 6]\<rparr>)
     = (Connected, limitedConnection\<lparr>slept := [3, 6, 3, 6]\<rparr>)"
proof -
  have cfg: "limit limitedConnection = 2" "retries limitedConnection = 0" "slept limitedConnection = []"
    by (simp_all add: limitedConnection_def initialConnection_def)
  show ?thesis
    using connect_success_resets_retries [of 0 "[brokerDown 0, brokerDown 0, brokerUp []]" limitedConnection
        Connected "limitedConnection\<lparr>slept := [3, 6]\<rparr>"] outage1 outage2
    by (simp add: cfg)
qed
section \<open>Properties of the broker session\<close>

subsection \<open>Outbound delivery\<close>

text \<open>
  C9. On an attached session whose send offset is zero, \<^verbatim>\<open>deliver\<close> returns in either
  build: the record is sent at the current command id, the send point is then
  (previous command id + 1, 0), where the successor of \<open>2^32 - 1\<close> is \<open>0\<close>, both
  assertions hold, and with \<open>sync\<close> an \<^verbatim>\<open>execution.sync\<close> goes out after the
  record and nothing else is done. Started with an offset other than zero on an attached
  session, a build with assertions fails on \<^verbatim>\<open>assert(offset == 0)\<close> before anything is
  sent and leaves the session as it was; a build with \<^verbatim>\<open>NDEBUG\<close> makes no check and
  delivers as above. On a detached session \<^verbatim>\<open>deliver\<close> fails at once, in
  \<^verbatim>\<open>getConnection()\<close>.
\<close>

theorem deliver_advances_send_point:
  "(handler s \<and> (snd (senderCommandPoint s) = 0 \<or> ndebug) \<longrightarrow>
      deliver ndebug frameMax sync s =
        (Return (),
         s\<lparr>senderCommandPoint := (fst (senderCommandPoint s) + 1, 0),
           trace := trace s @ DeliverOut (fst (senderCommandPoint s)) frameMax
                      # (if sync then [ExecutionSyncOut] else [])\<rparr>))
   \<and> (handler s \<and> snd (senderCommandPoint s) \<noteq> 0 \<and> \<not> ndebug \<longrightarrow>
        deliver ndebug frameMax sync s =
          (Throw (AssertionFailed ''senderGetCommandPoint().offset == 0''), s))
   \<and> (\<not> handler s \<longrightarrow>
        deliver ndebug frameMax sync s =
          (Throw (if ndebug then NullDereference ''handler'' else AssertionFailed ''isAttached()''), s))"
  by (simp add: deliver_def assertion_def getConnection_def getProxy_def recordDeliver_def
      andThen_def emit_def Let_def)

theorem deliver_advances_send_point_witness:
  "handler (freshSession\<lparr>senderCommandPoint := (4294967295, 0)\<rparr> :: nat session)
   \<and> snd (senderCommandPoint (freshSession\<lparr>senderCommandPoint := (4294967295, 0)\<rparr> :: nat session)) = 0
   \<and> deliver False 65535 True (freshSession\<lparr>senderCommandPoint := (4294967295, 0)\<rparr> :: nat session)
     = (Return (), freshSession\<lparr>senderCommandPoint := (0, 0),
          trace := [DeliverOut 4294967295 65535, ExecutionSyncOut]\<rparr>)
   \<and> snd (senderCommandPoint (freshSession\<lparr>senderCommandPoint := (4, 2)\<rparr> :: nat session)) \<noteq> 0
   \<and> deliver False 65535 True (freshSession\<lparr>senderCommandPoint := (4, 2)\<rparr> :: nat session)
     = (Throw (AssertionFailed ''senderGetCommandPoint().offset == 0''),
        freshSession\<lparr>senderCommandPoint := (4, 2)\<rparr>)
   \<and> deliver True 65535 False (freshSession\<lparr>senderCommandPoint := (4, 2)\<rparr> :: nat session)
     = (Return (), freshSession\<lparr>senderCommandPoint := (5, 0), trace := [DeliverOut 4 65535]\<rparr>)
   \<and> \<not> handler (detach freshSession :: nat session)
   \<and> deliver False 65535 False (detach freshSession :: nat session)
     = (Throw (AssertionFailed ''isAttached()''), detach freshSession)"
  using deliver_advances_send_point [of "freshSession\<lparr>senderCommandPoint := (4294967295, 0)\<rparr> :: nat session"
          False 65535 True]
    deliver_advances_send_point [of "freshSession\<lparr>senderCommandPoint := (4, 2)\<rparr> :: nat session"
          False 65535 True]
    deliver_advances_send_point [of "freshSession\<lparr>senderCommandPoint := (4, 2)\<rparr> :: nat session"
          True 65535 False]
    deliver_advances_send_point [of "detach freshSession :: nat session" False 65535 False]
  by (simp add: freshSession_def detach_def emit_def)

subsection \<open>Dispatch of inbound frames\<close>

text \<open>
  C8. \<^verbatim>\<open>handleIn\<close> hands header frames, content frames and content-bearing methods to
  \<^verbatim>\<open>handleContent\<close> with the current receiver command id; a method frame that is not
  content-bearing and carries both begin-of-frameset and end-of-frameset goes to
  \<^verbatim>\<open>handleCommand\<close>; every other frame, that is a method frame of a multi-frame
  command segment that is not content-bearing, fails and leaves the session unchanged. The
  exception is \<^verbatim>\<open>InternalErrorException("Cannot handle multi-frame command segments
  yet")\<close>, the failure the spec calls NotYetSupported.
\<close>

theorem handleIn_dispatch:
  "((body frame = HeaderBody \<or> (\<exists>d. body frame = ContentBody d) \<or>
      (\<exists>mb. body frame = MethodBody mb \<and> isContentBearing mb)) \<longrightarrow>
        handleIn ops adapter now deferred frame s
          = handleContent ops now deferred frame (receiverCurrent s) s)
   \<and> (\<forall>mb. body frame = MethodBody mb \<and> \<not> isContentBearing mb \<and> bof frame \<and> eof frame \<longrightarrow>
        handleIn ops adapter now deferred frame s = handleCommand adapter mb (receiverCurrent s) s)
   \<and> (\<forall>mb. body frame = MethodBody mb \<and> \<not> isContentBearing mb \<and> \<not> (bof frame \<and> eof frame) \<longrightarrow>
        handleIn ops adapter now deferred frame s
          = (Throw (InternalErrorException ''Cannot handle multi-frame command segments yet''), s))"
  by (auto simp: handleIn_def getMethod_def Let_def)

theorem handleIn_dispatch_witness:
  "handleIn creditOps unknownCommand 0 True (dummyHeader\<lparr>bof := True\<rparr>) freshSession
     = handleContent creditOps 0 True (dummyHeader\<lparr>bof := True\<rparr>) 0 freshSession
   \<and> handleIn creditOps unknownCommand 0 True (methodFrame transferMethod) freshSession
     = handleContent creditOps 0 True (methodFrame transferMethod) 0 freshSession
   \<and> handleIn creditOps unknownCommand 0 True (methodFrame queryMethod) freshSession
     = handleCommand unknownCommand queryMethod 0 freshSession
   \<and> handleIn creditOps unknownCommand 0 True ((methodFrame queryMethod)\<lparr>eof := False\<rparr>) freshSession
     = (Throw (InternalErrorException ''Cannot handle multi-frame command segments yet''), freshSession)"
proof -
  have b: "body (dummyHeader\<lparr>bof := True\<rparr>) = HeaderBody"
    "body (methodFrame transferMethod) = MethodBody transferMethod" "isContentBearing transferMethod"
    "body (methodFrame queryMethod) = MethodBody queryMethod" "\<not> isContentBearing queryMethod"
    "bof (methodFrame queryMethod)" "eof (methodFrame queryMethod)"
    "body ((methodFrame queryMethod)\<lparr>eof := False\<rparr>) = MethodBody queryMethod"
    "\<not> eof ((methodFrame queryMethod)\<lparr>eof := False\<rparr>)"
    by (simp_all add: dummyHeader_def methodFrame_def transferMethod_def queryMethod_def)
  have r: "receiverCurrent (freshSession :: nat session) = 0" by (simp add: freshSession_def)
  show ?thesis
    using handleIn_dispatch [of "dummyHeader\<lparr>bof := True\<rparr>" creditOps unknownCommand 0 True freshSession]
      handleIn_dispatch [of "methodFrame transferMethod" creditOps unknownCommand 0 True freshSession]
      handleIn_dispatch [of "methodFrame queryMethod" creditOps unknownCommand 0 True freshSession]
      handleIn_dispatch [of "(methodFrame queryMethod)\<lparr>eof := False\<rparr>" creditOps unknownCommand 0 True freshSession]
    by (simp add: b r)
qed

subsection \<open>Command dispatch\<close>

text \<open>
  C2. \<^verbatim>\<open>handleCommand\<close> invokes the adapter on the session with
  \<^verbatim>\<open>currentCommandComplete\<close> set to true. When the invocation returns on an attached
  session, the calls that follow are, in this order: \<^verbatim>\<open>receiverCompleted(id)\<close>
  exactly when \<^verbatim>\<open>currentCommandComplete\<close> is still true; then, if the method was not
  handled, \<^verbatim>\<open>NotImplementedException\<close> and nothing more; otherwise
  \<^verbatim>\<open>execution.result(id, result)\<close> if there is a result, and, if the method is sync
  and \<^verbatim>\<open>currentCommandComplete\<close> holds, \<^verbatim>\<open>message.accept\<close> of the batched
  accepts (when there are any) followed by the completion.
\<close>

theorem handleCommand_order:
  "invoke adapter m (s\<lparr>currentCommandComplete := True\<rparr>) = (Return res, s2) \<and> handler s2 \<longrightarrow>
     (\<not> wasHandled res \<longrightarrow>
        fst (handleCommand adapter m cid s) = Throw (NotImplementedException ''Not implemented'') \<and>
        trace (snd (handleCommand adapter m cid s))
          = trace s2 @ (if currentCommandComplete s2 then [ReceiverCompleted cid] else []))
   \<and> (wasHandled res \<longrightarrow>
        fst (handleCommand adapter m cid s) = Return () \<and>
        trace (snd (handleCommand adapter m cid s))
          = trace s2 @ (if currentCommandComplete s2 then [ReceiverCompleted cid] else [])
              @ (case invResult res of Some r \<Rightarrow> [ExecutionResult cid r] | None \<Rightarrow> [])
              @ (if isSync m \<and> currentCommandComplete s2
                 then (if accepted s2 \<noteq> [] then [MessageAccept (accepted s2)] else []) @ [SendCompletion]
                 else []))"
  by (auto simp: handleCommand_def andThen_def Let_def receiverCompleted_def emit_def viaProxy_def
        sendAcceptAndCompletion_def sendCompletion_def viaHandler_def split: option.splits)

theorem handleCommand_order_witness:
  "invoke (answering ''ok'') queryMethod
      ((freshSession :: nat session)\<lparr>receiverIncomplete := [7], accepted := [5],
          currentCommandComplete := True\<rparr>)
     = (Return \<lparr> wasHandled = True, invResult = Some ''ok'' \<rparr>,
        freshSession\<lparr>receiverIncomplete := [7], accepted := [5]\<rparr>)
   \<and> handler (freshSession\<lparr>receiverIncomplete := [7], accepted := [5]\<rparr> :: nat session)
   \<and> fst (handleCommand (answering ''ok'') queryMethod 7
        ((freshSession :: nat session)\<lparr>receiverIncomplete := [7], accepted := [5]\<rparr>)) = Return ()
   \<and> trace (snd (handleCommand (answering ''ok'') queryMethod 7
        ((freshSession :: nat session)\<lparr>receiverIncomplete := [7], accepted := [5]\<rparr>)))
     = [ReceiverCompleted 7, ExecutionResult 7 ''ok'', MessageAccept [5], SendCompletion]
   \<and> invoke unknownCommand queryMethod ((freshSession :: nat session)\<lparr>currentCommandComplete := True\<rparr>)
     = (Return \<lparr> wasHandled = False, invResult = None \<rparr>, freshSession)
   \<and> fst (handleCommand unknownCommand queryMethod 7 (freshSession :: nat session))
     = Throw (NotImplementedException ''Not implemented'')
   \<and> trace (snd (handleCommand unknownCommand queryMethod 7 (freshSession :: nat session)))
     = [ReceiverCompleted 7]"
proof -
  have i1: "invoke (answering ''ok'') queryMethod
      ((freshSession :: nat session)\<lparr>receiverIncomplete := [7], accepted := [5],
          currentCommandComplete := True\<rparr>)
     = (Return \<lparr> wasHandled = True, invResult = Some ''ok'' \<rparr>,
        freshSession\<lparr>receiverIncomplete := [7], accepted := [5]\<rparr>)"
    by (simp add: invoke_def answering_def queryMethod_def freshSession_def)
  have i2: "invoke unknownCommand queryMethod ((freshSession :: nat session)\<lparr>currentCommandComplete := True\<rparr>)
     = (Return \<lparr> wasHandled = False, invResult = None \<rparr>, freshSession)"
    by (simp add: invoke_def unknownCommand_def queryMethod_def freshSession_def)
  have f: "handler (freshSession :: nat session)" "accepted (freshSession :: nat session) = []"
    "trace (freshSession :: nat session) = []" "currentCommandComplete (freshSession :: nat session)"
    "isSync queryMethod"
    by (simp_all add: freshSession_def queryMethod_def)
  show ?thesis
    using handleCommand_order [of "answering ''ok''" queryMethod
        "(freshSession :: nat session)\<lparr>receiverIncomplete := [7], accepted := [5]\<rparr>"
        "\<lparr> wasHandled = True, invResult = Some ''ok'' \<rparr>"
        "freshSession\<lparr>receiverIncomplete := [7], accepted := [5]\<rparr>" 7]
      handleCommand_order [of unknownCommand queryMethod "freshSession :: nat session"
        "\<lparr> wasHandled = False, invResult = None \<rparr>" freshSession 7]
      i1 i2
    by (simp add: f)
qed

subsection \<open>Ordering of execution.sync\<close>

lemma top_half:
  fixes n :: nat
  assumes "n < 4294967296"
  shows "odd (n div 2147483648) \<longleftrightarrow> 2147483648 \<le> n"
proof (cases "n < 2147483648")
  case True
  then show ?thesis by simp
next
  case False
  then have "n div 2147483648 = 1" using assms by (intro div_nat_eqI) simp_all
  then show ?thesis using False by simp
qed

lemma sint_negative:
  fixes w :: "32 word"
  shows "sint w < 0 \<longleftrightarrow> 2147483648 \<le> unat w"
proof -
  have "unat w < 4294967296" using unsigned_less [of w, where ?'a = nat] by simp
  then have "odd (unat w div 2147483648) \<longleftrightarrow> 2147483648 \<le> unat w" by (rule top_half)
  moreover have "bit (unat w) 31 \<longleftrightarrow> odd (unat w div 2147483648)"
    using bit_iff_odd [of "unat w" 31] by simp
  moreover have "bit (unat w) 31 \<longleftrightarrow> bit w 31"
    using bit_unsigned_iff [of w 31, where ?'a = nat] by simp
  moreover have "bit w 31 \<longleftrightarrow> sint w < 0" using bit_last_iff [of w] by simp
  ultimately show ?thesis by blast
qed

lemma seqLess_unat: "seqLess x y \<longleftrightarrow> 2147483648 \<le> unat (x - y)"
  unfolding seqLess_def by (rule sint_negative)

text \<open>Within a window the order of the sequence is the order of the distances from its start.\<close>

lemma seqLess_window:
  fixes x y b :: "32 word"
  assumes x: "unat (x - b) < 2147483648" and y: "unat (y - b) < 2147483648"
  shows "seqLess x y \<longleftrightarrow> unat (x - b) < unat (y - b)"
proof -
  define p where "p = x - b"
  define q where "q = y - b"
  have d: "x - y = p - q" by (simp add: p_def q_def)
  have xp: "unat p < 2147483648" using x by (simp only: p_def)
  have yq: "unat q < 2147483648" using y by (simp only: q_def)
  have "2147483648 \<le> unat (p - q) \<longleftrightarrow> unat p < unat q"
    using xp yq by (simp add: unat_sub_if') arith
  then show ?thesis unfolding seqLess_unat d p_def q_def .
qed

lemma rank_inj:
  fixes x y b :: "32 word"
  assumes "unat (x - b) = unat (y - b)"
  shows "x = y"
proof -
  have "x - b = y - b" using assms by (simp only: word_unat_eq_iff)
  then show ?thesis by simp
qed

lemma windowD: "window b xs \<Longrightarrow> x \<in> set xs \<Longrightarrow> unat (x - b) < 2147483648"
  by (simp add: window_def list_all_iff)

lemma window_subset: "window b xs \<Longrightarrow> set ys \<subseteq> set xs \<Longrightarrow> window b ys"
  by (auto simp: window_def list_all_iff)

lemma lowest_least:
  "window b (m # xs) \<Longrightarrow>
     lowest m xs \<in> set (m # xs) \<and> (\<forall>y\<in>set (m # xs). unat (lowest m xs - b) \<le> unat (y - b))"
proof (induction xs arbitrary: m)
  case Nil
  show ?case by simp
next
  case (Cons z zs)
  define m' where "m' = (if seqLess z m then z else m)"
  have wm: "unat (m - b) < 2147483648" and wz: "unat (z - b) < 2147483648"
    using windowD [OF Cons.prems] by simp_all
  have ord: "seqLess z m \<longleftrightarrow> unat (z - b) < unat (m - b)" using wz wm by (rule seqLess_window)
  have "window b (m' # zs)" using Cons.prems by (auto simp: m'_def window_def)
  from Cons.IH [OF this]
  have ih: "lowest m' zs \<in> set (m' # zs)" "\<forall>y\<in>set (m' # zs). unat (lowest m' zs - b) \<le> unat (y - b)"
    by simp_all
  have low: "lowest m (z # zs) = lowest m' zs" by (simp add: m'_def)
  have "unat (lowest m' zs - b) \<le> unat (m' - b)" using ih(2) by simp
  moreover have "unat (m' - b) \<le> unat (m - b)" "unat (m' - b) \<le> unat (z - b)"
    using ord by (simp_all add: m'_def)
  ultimately have "unat (lowest m' zs - b) \<le> unat (m - b)" "unat (lowest m' zs - b) \<le> unat (z - b)"
    by simp_all
  moreover have "lowest m' zs \<in> set (m # z # zs)" using ih(1) by (auto simp: m'_def split: if_splits)
  ultimately show ?case using ih(2) unfolding low by simp
qed

lemma front_least:
  assumes "window b xs" "front xs = Some f"
  shows "f \<in> set xs \<and> (\<forall>y\<in>set xs. unat (f - b) \<le> unat (y - b))"
proof (cases xs)
  case Nil
  with assms(2) show ?thesis by (simp add: front_def)
next
  case (Cons x ys)
  with assms(2) have "f = lowest x ys" by (simp add: front_def)
  then show ?thesis using lowest_least [of b x ys] assms(1) Cons by simp
qed

lemma front_earlier:
  assumes w: "window b (c # xs)" and y: "y \<in> set xs" "seqLess y c"
  shows "\<exists>f. front xs = Some f \<and> seqLess f c"
proof -
  obtain x ys where xs: "xs = x # ys" using y(1) by (cases xs) auto
  then obtain f where f: "front xs = Some f" by (simp add: front_def)
  have wx: "window b xs" using w by (simp add: window_def)
  have fl: "f \<in> set xs" "unat (f - b) \<le> unat (y - b)" using front_least [OF wx f] y(1) by simp_all
  have wc: "unat (c - b) < 2147483648" and wy: "unat (y - b) < 2147483648"
    and wf: "unat (f - b) < 2147483648"
    using windowD [OF w, of c] windowD [OF wx y(1)] windowD [OF wx fl(1)] by simp_all
  have "unat (y - b) < unat (c - b)" using seqLess_window [OF wy wc] y(2) by simp
  then have "unat (f - b) < unat (c - b)" using fl(2) by simp
  then have "seqLess f c" using seqLess_window [OF wf wc] by simp
  then show ?thesis using f by simp
qed

text \<open>
  A sync \<open>q\<close> that the loop releases is before every other id that is incomplete at
  that moment.
\<close>

lemma released_before:
  assumes w: "window b (q # xs)" and f: "front xs = Some low" and rel: "\<not> seqLess low q"
    and y: "y \<in> set xs" "y \<noteq> q"
  shows "seqLess q y"
proof -
  have wx: "window b xs" using w by (simp add: window_def)
  have fl: "low \<in> set xs" "unat (low - b) \<le> unat (y - b)" using front_least [OF wx f] y(1) by simp_all
  have wq: "unat (q - b) < 2147483648" and wy: "unat (y - b) < 2147483648"
    and wl: "unat (low - b) < 2147483648"
    using windowD [OF w, of q] windowD [OF wx y(1)] windowD [OF wx fl(1)] by simp_all
  have "\<not> unat (low - b) < unat (q - b)" using seqLess_window [OF wl wq] rel by simp
  then have "unat (q - b) \<le> unat (y - b)" using fl(2) by simp
  moreover have "unat (q - b) \<noteq> unat (y - b)" using rank_inj [of q b y] y(2) by blast
  ultimately have "unat (q - b) < unat (y - b)" by simp
  then show ?thesis using seqLess_window [OF wq wy] by simp
qed

lemma syncLoop_popped:
  "syncLoop c s = (r, s') \<Longrightarrow>
     \<exists>popped rest inc cts.
       pendingExecutionSyncs s = popped @ rest \<and>
       s' = s\<lparr>pendingExecutionSyncs := rest, receiverIncomplete := inc,
              receiverCompletedToSend := cts, trace := trace s @ map ReceiverCompleted popped\<rparr> \<and>
       set inc \<subseteq> set (receiverIncomplete s) \<and>
       (\<forall>b. window b (pendingExecutionSyncs s @ receiverIncomplete s) \<longrightarrow>
            (\<forall>x\<in>set popped. \<forall>y\<in>set inc. seqLess x y)) \<and>
       (\<forall>v. r = Return v \<longrightarrow> v = (c \<or> popped \<noteq> []))"
proof (induction c s arbitrary: r s' rule: syncLoop.induct)
  case (1 c s)
  have stay: ?case if "s' = s" "\<forall>v. r = Return v \<longrightarrow> v = c"
    using that
    by (intro exI [of _ "[]"] exI [of _ "pendingExecutionSyncs s"] exI [of _ "receiverIncomplete s"]
          exI [of _ "receiverCompletedToSend s"]) simp
  show ?case
  proof (cases "pendingExecutionSyncs s")
    case Nil
    with "1.prems" have "s' = s" "r = Return c" by (simp_all add: syncLoop.simps [of c s])
    then show ?thesis by (intro stay) simp_all
  next
    case (Cons q rest)
    show ?thesis
    proof (cases "front (receiverIncomplete s)")
      case None
      with "1.prems" Cons have "s' = s" "r = Throw EmptySequenceSet"
        by (simp_all add: syncLoop.simps [of c s])
      then show ?thesis by (intro stay) simp_all
    next
      case (Some low)
      show ?thesis
      proof (cases "seqLess low q")
        case True
        with "1.prems" Cons Some have "s' = s" "r = Return c"
          by (simp_all add: syncLoop.simps [of c s])
        then show ?thesis by (intro stay) simp_all
      next
        case False
        define s1 where "s1 = receiverCompleted q (s\<lparr>pendingExecutionSyncs := rest\<rparr>)"
        have rec: "syncLoop True s1 = (r, s')"
          using "1.prems" Cons Some False by (simp add: syncLoop.simps [of c s] s1_def)
        from "1.IH" [OF Cons Some False rec [unfolded s1_def]]
        obtain popped rest' inc cts where p:
          "pendingExecutionSyncs s1 = popped @ rest'"
          "s' = s1\<lparr>pendingExecutionSyncs := rest', receiverIncomplete := inc,
              receiverCompletedToSend := cts, trace := trace s1 @ map ReceiverCompleted popped\<rparr>"
          "set inc \<subseteq> set (receiverIncomplete s1)"
          "\<forall>b. window b (pendingExecutionSyncs s1 @ receiverIncomplete s1) \<longrightarrow>
                (\<forall>x\<in>set popped. \<forall>y\<in>set inc. seqLess x y)"
          "\<forall>v. r = Return v \<longrightarrow> v = (True \<or> popped \<noteq> [])"
          unfolding s1_def by blast
        have s1: "pendingExecutionSyncs s1 = rest" "trace s1 = trace s @ [ReceiverCompleted q]"
          "receiverIncomplete s1 = removeAll q (receiverIncomplete s)"
          by (simp_all add: s1_def receiverCompleted_def emit_def)
        have a: "pendingExecutionSyncs s = (q # popped) @ rest'"
          using Cons p(1) s1(1) by simp
        have b: "s' = s\<lparr>pendingExecutionSyncs := rest', receiverIncomplete := inc,
              receiverCompletedToSend := cts, trace := trace s @ map ReceiverCompleted (q # popped)\<rparr>"
          using p(2) by (simp add: s1_def receiverCompleted_def emit_def)
        have c: "set inc \<subseteq> set (receiverIncomplete s)"
          using p(3) s1(3) by auto
        have d: "\<forall>b. window b (pendingExecutionSyncs s @ receiverIncomplete s) \<longrightarrow>
                (\<forall>x\<in>set (q # popped). \<forall>y\<in>set inc. seqLess x y)"
        proof (intro allI impI)
          fix b assume w: "window b (pendingExecutionSyncs s @ receiverIncomplete s)"
          have w1: "window b (pendingExecutionSyncs s1 @ receiverIncomplete s1)"
            using w by (rule window_subset) (auto simp: s1 Cons)
          have wq: "window b (q # receiverIncomplete s)"
            using w by (rule window_subset) (auto simp: Cons)
          have "\<forall>y\<in>set inc. seqLess q y"
          proof
            fix y assume "y \<in> set inc"
            then have "y \<in> set (receiverIncomplete s)" "y \<noteq> q" using p(3) s1(3) by auto
            then show "seqLess q y" using released_before [OF wq Some False] by blast
          qed
          moreover have "\<forall>x\<in>set popped. \<forall>y\<in>set inc. seqLess x y" using p(4) w1 by blast
          ultimately show "\<forall>x\<in>set (q # popped). \<forall>y\<in>set inc. seqLess x y" by simp
        qed
        have e: "\<forall>v. r = Return v \<longrightarrow> v = (c \<or> q # popped \<noteq> [])"
          using p(5) by simp
        show ?thesis
          using a c d e
          by (intro exI [of _ "q # popped"] exI [of _ rest'] exI [of _ inc] exI [of _ cts] conjI b) simp_all
      qed
    qed
  qed
qed

lemma sendCompletion_shape:
  "sendCompletion s = (r, s') \<Longrightarrow>
     (r = Return () \<and> s' = s\<lparr>trace := trace s @ [SendCompletion]\<rparr>) \<or> ((\<exists>e. r = Throw e) \<and> s' = s)"
  by (auto simp: sendCompletion_def viaHandler_def emit_def split: if_splits)

lemma sendAcceptAndCompletion_shape:
  "sendAcceptAndCompletion s = (r, s') \<Longrightarrow>
     \<exists>acc tail. s' = s\<lparr>accepted := acc, trace := trace s @ tail\<rparr> \<and>
       (\<forall>c\<in>set tail. c = SendCompletion \<or> (\<exists>a. c = MessageAccept a)) \<and>
       (r = Return () \<longrightarrow> SendCompletion \<in> set tail)"
proof (cases "handler s")
  case False
  assume "sendAcceptAndCompletion s = (r, s')"
  with False have "s' = s" "r \<noteq> Return ()"
    by (auto simp: sendAcceptAndCompletion_def andThen_def viaProxy_def sendCompletion_def viaHandler_def
        split: if_splits)
  then show ?thesis by (intro exI [of _ "accepted s"] exI [of _ "[]"]) simp
next
  case True
  assume run: "sendAcceptAndCompletion s = (r, s')"
  show ?thesis
  proof (cases "accepted s = []")
    case True
    with \<open>handler s\<close> run have "r = Return ()" "s' = s\<lparr>trace := trace s @ [SendCompletion]\<rparr>"
      by (auto simp: sendAcceptAndCompletion_def sendCompletion_def viaHandler_def emit_def)
    then show ?thesis by (intro exI [of _ "accepted s"] exI [of _ "[SendCompletion]"]) simp
  next
    case False
    with \<open>handler s\<close> run have "r = Return ()"
      "s' = s\<lparr>accepted := [], trace := trace s @ [MessageAccept (accepted s), SendCompletion]\<rparr>"
      by (auto simp: sendAcceptAndCompletion_def andThen_def viaProxy_def sendCompletion_def
          viaHandler_def emit_def)
    then show ?thesis by (intro exI [of _ "[]"] exI [of _ "[MessageAccept (accepted s), SendCompletion]"]) simp
  qed
qed

lemma completeRcvMsg_shape:
  assumes run: "completeRcvMsg msg s = (r, s')"
  shows "\<exists>popped rest inc cts acc tail.
     pendingExecutionSyncs s = popped @ rest \<and>
     s' = s\<lparr>pendingExecutionSyncs := rest, receiverIncomplete := inc,
            receiverCompletedToSend := cts, accepted := acc,
            trace := trace s @ ReceiverCompleted (msgCommandId msg) # map ReceiverCompleted popped @ tail\<rparr> \<and>
     (\<forall>b. window b (pendingExecutionSyncs s @ receiverIncomplete s) \<longrightarrow>
          (\<forall>x\<in>set popped. \<forall>y\<in>set inc. seqLess x y)) \<and>
     (\<forall>c\<in>set tail. c = SendCompletion \<or> (\<exists>a. c = MessageAccept a)) \<and>
     (r = Return () \<and> popped \<noteq> [] \<longrightarrow> SendCompletion \<in> set tail)"
proof -
  define s1 where "s1 = receiverCompleted (msgCommandId msg) s"
  define s2 where "s2 = (if requiresAccept msg
                then s1\<lparr>accepted := List.insert (msgCommandId msg) (accepted s1)\<rparr> else s1)"
  obtain r3 s3 where loop: "syncLoop False s2 = (r3, s3)" by (cases "syncLoop False s2")
  from syncLoop_popped [OF loop] obtain popped rest inc cts where p:
    "pendingExecutionSyncs s2 = popped @ rest"
    "s3 = s2\<lparr>pendingExecutionSyncs := rest, receiverIncomplete := inc,
              receiverCompletedToSend := cts, trace := trace s2 @ map ReceiverCompleted popped\<rparr>"
    "\<forall>b. window b (pendingExecutionSyncs s2 @ receiverIncomplete s2) \<longrightarrow>
          (\<forall>x\<in>set popped. \<forall>y\<in>set inc. seqLess x y)"
    "\<forall>v. r3 = Return v \<longrightarrow> v = (False \<or> popped \<noteq> [])"
    by blast
  have s2: "pendingExecutionSyncs s2 = pendingExecutionSyncs s"
    by (simp add: s2_def s1_def receiverCompleted_def emit_def)
  have s2i: "set (receiverIncomplete s2) \<subseteq> set (receiverIncomplete s)"
    by (auto simp: s2_def s1_def receiverCompleted_def emit_def)
  have ord: "\<forall>b. window b (pendingExecutionSyncs s @ receiverIncomplete s) \<longrightarrow>
          (\<forall>x\<in>set popped. \<forall>y\<in>set inc. seqLess x y)"
  proof (intro allI impI)
    fix b assume w: "window b (pendingExecutionSyncs s @ receiverIncomplete s)"
    have "window b (pendingExecutionSyncs s2 @ receiverIncomplete s2)"
      using w by (rule window_subset) (use s2 s2i in auto)
    then show "\<forall>x\<in>set popped. \<forall>y\<in>set inc. seqLess x y" using p(3) by blast
  qed
  have s3: "s3 = s\<lparr>pendingExecutionSyncs := rest, receiverIncomplete := inc,
            receiverCompletedToSend := cts, accepted := accepted s2,
            trace := trace s @ ReceiverCompleted (msgCommandId msg) # map ReceiverCompleted popped\<rparr>"
    using p(2) by (simp add: s2_def s1_def receiverCompleted_def emit_def)
  have run': "(r, s') = (case r3 of Throw e \<Rightarrow> (Throw e, s3)
      | Return c \<Rightarrow> (case msgMethod msg of
                None \<Rightarrow> (Throw (NullDereference ''getMethod()''), s3)
              | Some m \<Rightarrow>
                  if isSync m then sendAcceptAndCompletion s3
                  else if c then sendCompletion s3
                  else (Return (), s3)))"
    using run loop unfolding completeRcvMsg_def Let_def andThen_def s1_def s2_def
    by (simp split: outcome.splits)
  have "\<exists>acc tail. s' = s3\<lparr>accepted := acc, trace := trace s3 @ tail\<rparr> \<and>
       (\<forall>c\<in>set tail. c = SendCompletion \<or> (\<exists>a. c = MessageAccept a)) \<and>
       (r = Return () \<and> popped \<noteq> [] \<longrightarrow> SendCompletion \<in> set tail)"
  proof -
    have stay: ?thesis if "s' = s3" "r = Return () \<longrightarrow> popped = []"
      using that by (intro exI [of _ "accepted s3"] exI [of _ "[]"]) simp
    show ?thesis
    proof (cases r3)
      case (Throw e)
      with run' have "s' = s3" "r = Throw e" by simp_all
      then show ?thesis by (intro stay) simp_all
    next
      case (Return c)
      then have c: "c = (popped \<noteq> [])" using p(4) by simp
      show ?thesis
      proof (cases "msgMethod msg")
        case None
        with run' Return have "s' = s3" "r \<noteq> Return ()" by simp_all
        then show ?thesis by (intro stay) simp_all
      next
        case (Some m)
        show ?thesis
        proof (cases "isSync m")
          case True
          with run' Return Some have "sendAcceptAndCompletion s3 = (r, s')" by simp
          from sendAcceptAndCompletion_shape [OF this] show ?thesis by blast
        next
          case False
          show ?thesis
          proof (cases c)
            case True
            with run' Return Some \<open>\<not> isSync m\<close> have "sendCompletion s3 = (r, s')" by simp
            from sendCompletion_shape [OF this] show ?thesis
            proof
              assume "r = Return () \<and> s' = s3\<lparr>trace := trace s3 @ [SendCompletion]\<rparr>"
              then show ?thesis by (intro exI [of _ "accepted s3"] exI [of _ "[SendCompletion]"]) simp
            next
              assume "(\<exists>e. r = Throw e) \<and> s' = s3"
              then show ?thesis by (intro stay) auto
            qed
          next
            case False
            with run' Return Some \<open>\<not> isSync m\<close> have "s' = s3" "r = Return ()" by simp_all
            then show ?thesis using False c by (intro stay) simp_all
          qed
        qed
      qed
    qed
  qed
  then obtain acc tail where t: "s' = s3\<lparr>accepted := acc, trace := trace s3 @ tail\<rparr>"
       "\<forall>c\<in>set tail. c = SendCompletion \<or> (\<exists>a. c = MessageAccept a)"
       "r = Return () \<and> popped \<noteq> [] \<longrightarrow> SendCompletion \<in> set tail"
    by blast
  have eq: "s' = s\<lparr>pendingExecutionSyncs := rest, receiverIncomplete := inc,
            receiverCompletedToSend := cts, accepted := acc,
            trace := trace s @ ReceiverCompleted (msgCommandId msg) # map ReceiverCompleted popped @ tail\<rparr>"
    using t(1) s3 by simp
  show ?thesis
    using p(1) ord t(2) t(3) s2
    by (intro exI [of _ popped] exI [of _ rest] exI [of _ inc] exI [of _ cts] exI [of _ acc]
          exI [of _ tail] conjI eq) simp_all
qed

text \<open>
  C1. Command ids are compared in the order of the wrap-around sequence. An
  \<^verbatim>\<open>execution.sync\<close> dispatched while the lowest incomplete id is before the current
  one, and so, for ids of one window (any window, also one that contains the wrap from
  \<open>2^32 - 1\<close> to \<open>0\<close>), while some id before the current one is still incomplete,
  is not receiver-completed by \<^verbatim>\<open>handleCommand\<close>: the call only clears
  \<^verbatim>\<open>currentCommandComplete\<close> and appends the current id to the queue of delayed
  syncs; the set of incomplete ids and the trace (so what is sent to the peer) stay as they
  were, also when the method is marked sync. \<^verbatim>\<open>completeRcvMsg\<close> receiver-completes
  the message's id and then exactly the delayed syncs it pops from the front of that queue,
  and nothing else; for ids of one window every popped sync is before every id still
  incomplete afterwards (every strictly-earlier command has completed); and when the call
  returns normally a completion was sent after them.
\<close>

theorem execution_sync_waits:
  "(command m = ExecutionSync \<and> front (receiverIncomplete s) = Some low
      \<and> seqLess low (receiverCurrent s) \<longrightarrow>
      handleCommand adapter m (receiverCurrent s) s
        = (Return (), s\<lparr>currentCommandComplete := False,
                        pendingExecutionSyncs := pendingExecutionSyncs s @ [receiverCurrent s]\<rparr>))
   \<and> (command m = ExecutionSync \<and> window b (receiverCurrent s # receiverIncomplete s)
      \<and> (\<exists>y\<in>set (receiverIncomplete s). seqLess y (receiverCurrent s)) \<longrightarrow>
      handleCommand adapter m (receiverCurrent s) s
        = (Return (), s\<lparr>currentCommandComplete := False,
                        pendingExecutionSyncs := pendingExecutionSyncs s @ [receiverCurrent s]\<rparr>))
   \<and> (completeRcvMsg msg s = (r, s') \<longrightarrow>
        (\<exists>popped tail.
           pendingExecutionSyncs s = popped @ pendingExecutionSyncs s' \<and>
           trace s' = trace s @ ReceiverCompleted (msgCommandId msg) # map ReceiverCompleted popped @ tail \<and>
           (window b (pendingExecutionSyncs s @ receiverIncomplete s) \<longrightarrow>
              (\<forall>x\<in>set popped. \<forall>y\<in>set (receiverIncomplete s'). seqLess x y)) \<and>
           (\<forall>x. ReceiverCompleted x \<notin> set tail) \<and>
           (r = Return () \<and> popped \<noteq> [] \<longrightarrow> SendCompletion \<in> set tail)))"
proof (intro conjI impI)
  assume "command m = ExecutionSync \<and> front (receiverIncomplete s) = Some low
      \<and> seqLess low (receiverCurrent s)"
  then show "handleCommand adapter m (receiverCurrent s) s
        = (Return (), s\<lparr>currentCommandComplete := False,
                        pendingExecutionSyncs := pendingExecutionSyncs s @ [receiverCurrent s]\<rparr>)"
    by (simp add: handleCommand_def invoke_def andThen_def addPendingExecutionSync_def Let_def)
next
  assume a: "command m = ExecutionSync \<and> window b (receiverCurrent s # receiverIncomplete s)
      \<and> (\<exists>y\<in>set (receiverIncomplete s). seqLess y (receiverCurrent s))"
  then obtain f where f: "front (receiverIncomplete s) = Some f" "seqLess f (receiverCurrent s)"
    using front_earlier by blast
  show "handleCommand adapter m (receiverCurrent s) s
        = (Return (), s\<lparr>currentCommandComplete := False,
                        pendingExecutionSyncs := pendingExecutionSyncs s @ [receiverCurrent s]\<rparr>)"
    using a f by (simp add: handleCommand_def invoke_def andThen_def addPendingExecutionSync_def Let_def)
next
  assume "completeRcvMsg msg s = (r, s')"
  from completeRcvMsg_shape [OF this] obtain popped rest inc cts acc tail where p:
     "pendingExecutionSyncs s = popped @ rest"
     "s' = s\<lparr>pendingExecutionSyncs := rest, receiverIncomplete := inc,
            receiverCompletedToSend := cts, accepted := acc,
            trace := trace s @ ReceiverCompleted (msgCommandId msg) # map ReceiverCompleted popped @ tail\<rparr>"
     "\<forall>b. window b (pendingExecutionSyncs s @ receiverIncomplete s) \<longrightarrow>
          (\<forall>x\<in>set popped. \<forall>y\<in>set inc. seqLess x y)"
     "\<forall>c\<in>set tail. c = SendCompletion \<or> (\<exists>a. c = MessageAccept a)"
     "r = Return () \<and> popped \<noteq> [] \<longrightarrow> SendCompletion \<in> set tail"
    by blast
  have "\<forall>x. ReceiverCompleted x \<notin> set tail" using p(4) by auto
  moreover have "window b (pendingExecutionSyncs s @ receiverIncomplete s) \<longrightarrow>
          (\<forall>x\<in>set popped. \<forall>y\<in>set inc. seqLess x y)"
    using p(3) by blast
  ultimately show "\<exists>popped tail.
           pendingExecutionSyncs s = popped @ pendingExecutionSyncs s' \<and>
           trace s' = trace s @ ReceiverCompleted (msgCommandId msg) # map ReceiverCompleted popped @ tail \<and>
           (window b (pendingExecutionSyncs s @ receiverIncomplete s) \<longrightarrow>
              (\<forall>x\<in>set popped. \<forall>y\<in>set (receiverIncomplete s'). seqLess x y)) \<and>
           (\<forall>x. ReceiverCompleted x \<notin> set tail) \<and>
           (r = Return () \<and> popped \<noteq> [] \<longrightarrow> SendCompletion \<in> set tail)"
    using p(1) p(5) by (intro exI [of _ popped] exI [of _ tail]) (simp add: p(2))
qed

text \<open>
  A run across the wrap: the transfer \<open>2^32 - 1\<close> is still incomplete when the sync \<open>0\<close>
  arrives; the sync is released when the transfer completes, while the later transfer \<open>1\<close>
  stays incomplete.
\<close>

lemma sync_delayed_run:
  "handleCommand (unknownCommand :: nat adapter) syncMethod 0
        (freshSession\<lparr>receiverCurrent := 0, receiverIncomplete := [4294967295, 0]\<rparr>)
     = (Return (), freshSession\<lparr>receiverCurrent := 0, receiverIncomplete := [4294967295, 0],
           currentCommandComplete := False, pendingExecutionSyncs := [0]\<rparr>)"
  by (simp add: handleCommand_def invoke_def andThen_def addPendingExecutionSync_def front_def
      seqLess_def syncMethod_def freshSession_def)

lemma sync_released_run:
  "completeRcvMsg (transferMsg 4294967295)
        ((freshSession :: nat session)\<lparr>receiverCurrent := 1, receiverIncomplete := [4294967295, 0, 1],
           currentCommandComplete := False, pendingExecutionSyncs := [0]\<rparr>)
     = (Return (), freshSession\<lparr>receiverCurrent := 1, receiverIncomplete := [1],
           receiverCompletedToSend := [0, 4294967295], currentCommandComplete := False,
           accepted := [4294967295], pendingExecutionSyncs := [],
           trace := [ReceiverCompleted 4294967295, ReceiverCompleted 0, SendCompletion]\<rparr>)"
  by (simp add: completeRcvMsg_def andThen_def syncLoop.simps front_def seqLess_def
      receiverCompleted_def emit_def
      transferMsg_def requiresAccept_def msgMethod_def List.map_filter_def getMethod_def methodFrame_def
      transferMethod_def dummyHeader_def sendCompletion_def viaHandler_def freshSession_def)

theorem execution_sync_waits_witness:
  "command syncMethod = ExecutionSync
   \<and> front [4294967295, 0] = Some 4294967295
   \<and> window 4294967295 [0, 4294967295, 0]
   \<and> seqLess 4294967295 0
   \<and> handleCommand (unknownCommand :: nat adapter) syncMethod 0
        (freshSession\<lparr>receiverCurrent := 0, receiverIncomplete := [4294967295, 0]\<rparr>)
     = (Return (), freshSession\<lparr>receiverCurrent := 0, receiverIncomplete := [4294967295, 0],
           currentCommandComplete := False, pendingExecutionSyncs := [0]\<rparr>)
   \<and> completeRcvMsg (transferMsg 4294967295)
        ((freshSession :: nat session)\<lparr>receiverCurrent := 1, receiverIncomplete := [4294967295, 0, 1],
           currentCommandComplete := False, pendingExecutionSyncs := [0]\<rparr>)
     = (Return (), freshSession\<lparr>receiverCurrent := 1, receiverIncomplete := [1],
           receiverCompletedToSend := [0, 4294967295], currentCommandComplete := False,
           accepted := [4294967295], pendingExecutionSyncs := [],
           trace := [ReceiverCompleted 4294967295, ReceiverCompleted 0, SendCompletion]\<rparr>)
   \<and> window 4294967295 [0, 4294967295, 0, 1]
   \<and> (\<exists>popped tail. [0] = popped @ [] \<and>
         [ReceiverCompleted 4294967295, ReceiverCompleted 0, SendCompletion]
           = ReceiverCompleted 4294967295 # map ReceiverCompleted popped @ tail \<and>
         (\<forall>x\<in>set popped. seqLess x 1) \<and> popped \<noteq> [] \<and> SendCompletion \<in> set tail)"
proof -
  have c: "command syncMethod = ExecutionSync" by (simp add: syncMethod_def)
  have w1: "window 4294967295 [0, 4294967295, 0]" by (simp add: window_def)
  have w2: "window 4294967295 [0, 4294967295, 0, 1]" by (simp add: window_def)
  have e: "seqLess 4294967295 0" by (simp add: seqLess_def)
  have f: "front [4294967295, 0] = Some 4294967295" by (simp add: front_def seqLess_def)
  have m: "msgCommandId (transferMsg 4294967295) = 4294967295" by (simp add: transferMsg_def)
  from execution_sync_waits [where m = syncMethod and b = 4294967295 and adapter = unknownCommand
      and low = 4294967295
      and s = "freshSession\<lparr>receiverCurrent := 0, receiverIncomplete := [4294967295, 0]\<rparr> :: nat session"]
    c w1 e f
  have a: "handleCommand (unknownCommand :: nat adapter) syncMethod 0
        (freshSession\<lparr>receiverCurrent := 0, receiverIncomplete := [4294967295, 0]\<rparr>)
     = (Return (), freshSession\<lparr>receiverCurrent := 0, receiverIncomplete := [4294967295, 0],
           currentCommandComplete := False, pendingExecutionSyncs := [0]\<rparr>)"
    by (simp add: freshSession_def)
  from execution_sync_waits [where b = 4294967295 and low = 4294967295
      and s = "(freshSession :: nat session)\<lparr>receiverCurrent := 1, receiverIncomplete := [4294967295, 0, 1],
           currentCommandComplete := False, pendingExecutionSyncs := [0]\<rparr>"
      and msg = "transferMsg 4294967295" and r = "Return ()"
      and s' = "freshSession\<lparr>receiverCurrent := 1, receiverIncomplete := [1],
           receiverCompletedToSend := [0, 4294967295], currentCommandComplete := False,
           accepted := [4294967295], pendingExecutionSyncs := [],
           trace := [ReceiverCompleted 4294967295, ReceiverCompleted 0, SendCompletion]\<rparr>"]
    sync_released_run w2
  obtain popped tail where p: "[0] = popped @ []"
    "[ReceiverCompleted 4294967295, ReceiverCompleted 0, SendCompletion]
       = ReceiverCompleted 4294967295 # map ReceiverCompleted popped @ tail"
    "\<forall>x\<in>set popped. seqLess x 1"
    "popped \<noteq> [] \<longrightarrow> SendCompletion \<in> set tail"
    by (auto simp: m freshSession_def)
  have "popped \<noteq> []" using p(1) by auto
  then have b: "\<exists>popped tail. [0] = popped @ [] \<and>
         [ReceiverCompleted 4294967295, ReceiverCompleted 0, SendCompletion]
           = ReceiverCompleted 4294967295 # map ReceiverCompleted popped @ tail \<and>
         (\<forall>x\<in>set popped. seqLess x 1) \<and> popped \<noteq> [] \<and> SendCompletion \<in> set tail"
    using p by blast
  show ?thesis using c f w1 e a sync_released_run w2 b by (intro conjI)
qed

subsection \<open>Producer flow control\<close>

lemma processSendCredit_stopped:
  "rateFlowcontrol s = Some r \<Longrightarrow> flowStopped ops r \<Longrightarrow> 0 < msgs \<Longrightarrow> handler s \<Longrightarrow>
      processSendCredit ops now msgs s
        = (Return True, s\<lparr>trace := trace s @ [LogWarning ''producer throttling violation'', MessageStop '''']\<rparr>)"
  by (simp add: processSendCredit_def andThen_def viaHandler_def emit_def)

lemma producerFlowControl_stopped:
  "rateFlowcontrol s = Some r \<Longrightarrow> flowStopped ops r \<Longrightarrow> bof frame \<Longrightarrow> bos frame \<Longrightarrow> handler s \<Longrightarrow>
      producerFlowControl ops now frame s
        = (Return (), s\<lparr>trace := trace s @ [LogWarning ''producer throttling violation'', MessageStop '''']\<rparr>)"
  by (simp add: producerFlowControl_def processSendCredit_stopped andThen_def)

lemma callback_frame:
  assumes run: "callback t sync s = (r, s')"
  shows "rateFlowcontrol s' = rateFlowcontrol s \<and> clientCredit s' = clientCredit s \<and>
     flowControlTimer s' = flowControlTimer s \<and>
     (\<exists>evs. trace s' = trace s @ evs \<and> (\<forall>d u n. MessageFlow d u n \<notin> set evs))"
proof (cases "t < length (pendings s) \<and> sessionPtr (pendings s ! t) \<and> \<not> destroyed s \<and>
    t \<in> set (incompleteRcvMsgs s) \<and> handler s")
  case False
  then have "rateFlowcontrol s' = rateFlowcontrol s \<and> clientCredit s' = clientCredit s \<and>
     flowControlTimer s' = flowControlTimer s \<and> trace s' = trace s"
    using run by (auto simp: callback_def Let_def split: if_splits)
  then show ?thesis by simp
next
  case True
  define s1 where "s1 = s\<lparr>incompleteRcvMsgs := removeAll t (incompleteRcvMsgs s)\<rparr>"
  show ?thesis
  proof (cases sync)
    case False
    then have "s' = s1\<lparr>scheduledRcvMsgs := scheduledRcvMsgs s1 @ [t]\<rparr> \<or>
        s' = emit RequestIOProcessing (s1\<lparr>scheduledRcvMsgs := scheduledRcvMsgs s1 @ [t]\<rparr>)"
      using run True by (auto simp: callback_def Let_def s1_def split: if_splits)
    then show ?thesis
    proof
      assume "s' = s1\<lparr>scheduledRcvMsgs := scheduledRcvMsgs s1 @ [t]\<rparr>"
      then show ?thesis by (simp add: s1_def)
    next
      assume "s' = emit RequestIOProcessing (s1\<lparr>scheduledRcvMsgs := scheduledRcvMsgs s1 @ [t]\<rparr>)"
      then show ?thesis by (simp add: s1_def emit_def)
    qed
  next
    case sy: True
    have c: "completeRcvMsg (pendingMsg (pendings s ! t)) (emit (CompleteRcvMsg t) s1) = (r, s')"
      using run True sy by (simp add: callback_def s1_def)
    from completeRcvMsg_shape [OF c] obtain popped rest inc cts acc tail where p:
     "s' = (emit (CompleteRcvMsg t) s1)\<lparr>pendingExecutionSyncs := rest, receiverIncomplete := inc,
            receiverCompletedToSend := cts, accepted := acc,
            trace := trace (emit (CompleteRcvMsg t) s1) @
              ReceiverCompleted (msgCommandId (pendingMsg (pendings s ! t))) # map ReceiverCompleted popped @ tail\<rparr>"
     "\<forall>c\<in>set tail. c = SendCompletion \<or> (\<exists>a. c = MessageAccept a)"
      by blast
    have tr: "trace s' = trace s @ (CompleteRcvMsg t #
        ReceiverCompleted (msgCommandId (pendingMsg (pendings s ! t))) # map ReceiverCompleted popped @ tail)"
      by (simp add: p(1) emit_def s1_def)
    have "\<forall>d u n. MessageFlow d u n \<notin> set (CompleteRcvMsg t #
        ReceiverCompleted (msgCommandId (pendingMsg (pendings s ! t))) # map ReceiverCompleted popped @ tail)"
      using p(2) by auto
    then show ?thesis using tr by (simp add: p(1) emit_def s1_def)
  qed
qed

lemma endOfFrameset_frame:
  assumes run: "endOfFrameset deferred frame msg0 s = (r, s')"
  shows "rateFlowcontrol s' = rateFlowcontrol s \<and> clientCredit s' = clientCredit s \<and>
     flowControlTimer s' = flowControlTimer s \<and>
     (\<exists>evs. trace s' = trace s @ evs \<and> (\<forall>d u n. MessageFlow d u n \<notin> set evs))"
proof (cases "handler s")
  case False
  then have "s' = s" using run by (simp add: endOfFrameset_def)
  then show ?thesis by simp
next
  case True
  define msg where "msg = (if bof frame then msg0\<lparr>msgFrames := msgFrames msg0 @ [dummyHeader]\<rparr> else msg0)
      \<lparr>msgPublisher := True\<rparr>"
  define s2 where "s2 = (emit (SemanticHandle msg) s)\<lparr>msgBuilder := None\<rparr>"
  define s3 where "s3 = snd (createPendingMsg msg s2)"
  have s3: "rateFlowcontrol s3 = rateFlowcontrol s" "clientCredit s3 = clientCredit s"
    "flowControlTimer s3 = flowControlTimer s" "trace s3 = trace s @ [SemanticHandle msg]"
    by (simp_all add: s3_def s2_def createPendingMsg_def emit_def)
  show ?thesis
  proof (cases deferred)
    case True
    then have "s' = s3"
      using run \<open>handler s\<close>
      by (simp add: endOfFrameset_def Let_def msg_def s2_def s3_def createPendingMsg_def emit_def)
    then show ?thesis using s3 by simp
  next
    case False
    then have "callback (length (pendings s)) True s3 = (r, s')"
      using run \<open>handler s\<close>
      by (simp add: endOfFrameset_def Let_def msg_def s2_def s3_def createPendingMsg_def emit_def)
    from callback_frame [OF this] obtain evs where e:
      "rateFlowcontrol s' = rateFlowcontrol s3" "clientCredit s' = clientCredit s3"
      "flowControlTimer s' = flowControlTimer s3" "trace s' = trace s3 @ evs"
      "\<forall>d u n. MessageFlow d u n \<notin> set evs"
      by blast
    have "trace s' = trace s @ (SemanticHandle msg # evs)" using e(4) s3(4) by simp
    moreover have "\<forall>d u n. MessageFlow d u n \<notin> set (SemanticHandle msg # evs)" using e(5) by simp
    ultimately show ?thesis using e(1-3) s3(1-3) by metis
  qed
qed

lemma handleContent_flow_stopped:
  assumes run: "handleContent ops now deferred frame cid s = (Return (), s')"
    and stopped: "rateFlowcontrol s = Some r" "flowStopped ops r" and opens: "bof frame" "bos frame"
  shows "rateFlowcontrol s' = Some r \<and> clientCredit s' = clientCredit s \<and>
     flowControlTimer s' = flowControlTimer s \<and>
     (\<exists>evs. trace s' = trace s @ evs @ [LogWarning ''producer throttling violation'', MessageStop ''''] \<and>
        (\<forall>d u n. MessageFlow d u n \<notin> set evs))"
proof -
  define m1 where "m1 = \<lparr> msgCommandId = cid, msgFrames = [frame], msgPublisher = False \<rparr>"
  define s1 where "s1 = s\<lparr>msgBuilder := Some m1\<rparr>"
  have b: "builderHandle frame (builderStart cid s) = (Return m1, s1)"
    by (simp add: builderHandle_def builderStart_def m1_def s1_def Let_def)
  obtain r2 s2 where e: "(if eof frame \<and> eos frame then endOfFrameset deferred frame m1
             else (\<lambda>s1. (Return (), s1))) s1 = (r2, s2)"
    by (cases "(if eof frame \<and> eos frame then endOfFrameset deferred frame m1
             else (\<lambda>s1. (Return (), s1))) s1")
  have s2: "rateFlowcontrol s2 = rateFlowcontrol s1 \<and> clientCredit s2 = clientCredit s1 \<and>
     flowControlTimer s2 = flowControlTimer s1 \<and>
     (\<exists>evs. trace s2 = trace s1 @ evs \<and> (\<forall>d u n. MessageFlow d u n \<notin> set evs))"
  proof (cases "eof frame \<and> eos frame")
    case True
    then have "endOfFrameset deferred frame m1 s1 = (r2, s2)" using e by simp
    then show ?thesis by (rule endOfFrameset_frame)
  next
    case False
    then have "s2 = s1" using e by auto
    then show ?thesis by simp
  qed
  then obtain evs where evs: "trace s2 = trace s1 @ evs" "\<forall>d u n. MessageFlow d u n \<notin> set evs"
    by blast
  have f: "(Return (), s') = (case r2 of Throw x \<Rightarrow> (Throw x, s2)
      | Return u \<Rightarrow> producerFlowControl ops now frame s2)"
    using run opens b e unfolding handleContent_def andThen_def
    by (simp split: outcome.splits)
  then have p: "producerFlowControl ops now frame s2 = (Return (), s')"
    by (cases r2) simp_all
  have rf: "rateFlowcontrol s2 = Some r" using s2 stopped(1) by (simp add: s1_def)
  have h: "handler s2"
  proof (rule ccontr)
    assume "\<not> handler s2"
    then have "fst (producerFlowControl ops now frame s2) \<noteq> Return ()"
      using rf stopped(2) opens
      by (simp add: producerFlowControl_def processSendCredit_def andThen_def viaHandler_def emit_def)
    then show False using p by simp
  qed
  have "s' = s2\<lparr>trace := trace s2 @ [LogWarning ''producer throttling violation'', MessageStop '''']\<rparr>"
    using producerFlowControl_stopped [OF rf stopped(2) opens h, of now] p by simp
  then show ?thesis
    using s2 evs stopped(1) by (intro conjI exI [of _ evs]) (simp_all add: s1_def)
qed

text \<open>
  C7. When \<^verbatim>\<open>processSendCredit\<close> is called for at least one message while
  \<^verbatim>\<open>flowStopped()\<close> holds, it logs the warning, sends \<^verbatim>\<open>message.stop("")\<close> and
  returns true; the regulator, the credit counter of the management object and everything
  else but the trace stay as they were, so no credit is granted and no counter advances.
  The flow-control part of \<^verbatim>\<open>handleContent\<close> makes that call, with one message, for
  a frame that opens a frameset, and schedules no timer then. So whenever
  \<^verbatim>\<open>handleContent\<close> returns for a frame that opens a frameset of a session whose flow
  is stopped, the last two calls it made are the warning and \<^verbatim>\<open>message.stop("")\<close>,
  it sent no \<^verbatim>\<open>message.flow\<close>, and the regulator, the credit counter and the timer
  are as before.
\<close>

theorem flow_stopped_sends_stop:
  "(rateFlowcontrol s = Some r \<and> flowStopped ops r \<and> 0 < msgs \<and> handler s \<longrightarrow>
      processSendCredit ops now msgs s
        = (Return True, s\<lparr>trace := trace s @ [LogWarning ''producer throttling violation'', MessageStop '''']\<rparr>))
   \<and> (rateFlowcontrol s = Some r \<and> flowStopped ops r \<and> bof frame \<and> bos frame \<and> handler s \<longrightarrow>
      producerFlowControl ops now frame s
        = (Return (), s\<lparr>trace := trace s @ [LogWarning ''producer throttling violation'', MessageStop '''']\<rparr>))
   \<and> (handleContent ops now deferred frame cid s = (Return (), s') \<and>
        rateFlowcontrol s = Some r \<and> flowStopped ops r \<and> bof frame \<and> bos frame \<longrightarrow>
      rateFlowcontrol s' = Some r \<and> clientCredit s' = clientCredit s \<and>
      flowControlTimer s' = flowControlTimer s \<and>
      (\<exists>evs. trace s' = trace s @ evs @ [LogWarning ''producer throttling violation'', MessageStop ''''] \<and>
         (\<forall>d u n. MessageFlow d u n \<notin> set evs)))"
proof (intro conjI impI)
  assume "rateFlowcontrol s = Some r \<and> flowStopped ops r \<and> 0 < msgs \<and> handler s"
  then show "processSendCredit ops now msgs s
        = (Return True, s\<lparr>trace := trace s @ [LogWarning ''producer throttling violation'', MessageStop '''']\<rparr>)"
    by (simp add: processSendCredit_stopped)
next
  assume "rateFlowcontrol s = Some r \<and> flowStopped ops r \<and> bof frame \<and> bos frame \<and> handler s"
  then show "producerFlowControl ops now frame s
        = (Return (), s\<lparr>trace := trace s @ [LogWarning ''producer throttling violation'', MessageStop '''']\<rparr>)"
    by (simp add: producerFlowControl_stopped)
next
  assume a: "handleContent ops now deferred frame cid s = (Return (), s') \<and>
        rateFlowcontrol s = Some r \<and> flowStopped ops r \<and> bof frame \<and> bos frame"
  then have run: "handleContent ops now deferred frame cid s = (Return (), s')"
    and st: "rateFlowcontrol s = Some r" "flowStopped ops r" and op: "bof frame" "bos frame"
    by simp_all
  note h = handleContent_flow_stopped [OF run st op]
  show "rateFlowcontrol s' = Some r" "clientCredit s' = clientCredit s"
    "flowControlTimer s' = flowControlTimer s"
    "\<exists>evs. trace s' = trace s @ evs @ [LogWarning ''producer throttling violation'', MessageStop ''''] \<and>
         (\<forall>d u n. MessageFlow d u n \<notin> set evs)"
    using h by simp_all
qed

lemma stopped_frame_run:
  "handleContent creditOps 5 True (methodFrame transferMethod) 1
       (freshSession\<lparr>rateFlowcontrol := Some 0, clientCredit := Some 0\<rparr>)
     = (Return (), freshSession\<lparr>rateFlowcontrol := Some 0, clientCredit := Some 0,
          pendings := [\<lparr> sessionPtr = True, pendingMsg = transferMsg 1, completionCancelled = False \<rparr>],
          incompleteRcvMsgs := [0],
          trace := [SemanticHandle (transferMsg 1), LogWarning ''producer throttling violation'',
                    MessageStop '''']\<rparr>)"
  by (simp add: handleContent_def andThen_def builderStart_def builderHandle_def endOfFrameset_def
      producerFlowControl_def processSendCredit_def viaHandler_def createPendingMsg_def emit_def
      Let_def freshSession_def creditOps_def methodFrame_def transferMsg_def)

theorem flow_stopped_sends_stop_witness:
  "rateFlowcontrol (freshSession\<lparr>rateFlowcontrol := Some 0, clientCredit := Some 0\<rparr>) = Some (0 :: nat)
   \<and> flowStopped creditOps 0 \<and> bof (methodFrame transferMethod) \<and> bos (methodFrame transferMethod)
   \<and> processSendCredit creditOps 5 1 (freshSession\<lparr>rateFlowcontrol := Some 0, clientCredit := Some 0\<rparr>)
       = (Return True, freshSession\<lparr>rateFlowcontrol := Some 0, clientCredit := Some 0,
            trace := [LogWarning ''producer throttling violation'', MessageStop '''']\<rparr>)
   \<and> producerFlowControl creditOps 5 (methodFrame transferMethod)
         (freshSession\<lparr>rateFlowcontrol := Some 0, clientCredit := Some 0\<rparr>)
       = (Return (), freshSession\<lparr>rateFlowcontrol := Some 0, clientCredit := Some 0,
            trace := [LogWarning ''producer throttling violation'', MessageStop '''']\<rparr>)
   \<and> handleContent creditOps 5 True (methodFrame transferMethod) 1
       (freshSession\<lparr>rateFlowcontrol := Some 0, clientCredit := Some 0\<rparr>)
     = (Return (), freshSession\<lparr>rateFlowcontrol := Some 0, clientCredit := Some 0,
          pendings := [\<lparr> sessionPtr = True, pendingMsg = transferMsg 1, completionCancelled = False \<rparr>],
          incompleteRcvMsgs := [0],
          trace := [SemanticHandle (transferMsg 1), LogWarning ''producer throttling violation'',
                    MessageStop '''']\<rparr>)
   \<and> (\<exists>evs. [SemanticHandle (transferMsg 1), LogWarning ''producer throttling violation'', MessageStop '''']
          = [] @ evs @ [LogWarning ''producer throttling violation'', MessageStop ''''] \<and>
          (\<forall>d u n. MessageFlow d u n \<notin> set evs))"
  using flow_stopped_sends_stop [of "freshSession\<lparr>rateFlowcontrol := Some 0, clientCredit := Some 0\<rparr>"
      0 creditOps 1 5 "methodFrame transferMethod" True 1
      "freshSession\<lparr>rateFlowcontrol := Some 0, clientCredit := Some 0,
          pendings := [\<lparr> sessionPtr = True, pendingMsg = transferMsg 1, completionCancelled = False \<rparr>],
          incompleteRcvMsgs := [0],
          trace := [SemanticHandle (transferMsg 1), LogWarning ''producer throttling violation'',
                    MessageStop '''']\<rparr>"]
    stopped_frame_run
  by (simp add: freshSession_def creditOps_def methodFrame_def)

subsection \<open>Pending receives\<close>

lemma completeRcvMsg_frame:
  assumes run: "completeRcvMsg msg s = (r, s')"
  shows "pendings s' = pendings s \<and> incompleteRcvMsgs s' = incompleteRcvMsgs s \<and>
     scheduledRcvMsgs s' = scheduledRcvMsgs s \<and> destroyed s' = destroyed s \<and> handler s' = handler s \<and>
     rateFlowcontrol s' = rateFlowcontrol s \<and> clientCredit s' = clientCredit s \<and>
     flowControlTimer s' = flowControlTimer s \<and>
     (\<forall>t. completions t s' = completions t s)"
proof -
  from completeRcvMsg_shape [OF run] obtain popped rest inc cts acc tail where p:
     "s' = s\<lparr>pendingExecutionSyncs := rest, receiverIncomplete := inc,
            receiverCompletedToSend := cts, accepted := acc,
            trace := trace s @ ReceiverCompleted (msgCommandId msg) # map ReceiverCompleted popped @ tail\<rparr>"
     "\<forall>c\<in>set tail. c = SendCompletion \<or> (\<exists>a. c = MessageAccept a)"
    by blast
  have "count_list tail (CompleteRcvMsg t) = 0" for t
    using p(2) by (auto simp: count_list_0_iff)
  moreover have "count_list (map ReceiverCompleted popped) (CompleteRcvMsg t) = 0" for t
    by (auto simp: count_list_0_iff)
  ultimately show ?thesis
    by (simp add: p(1) completions_def)
qed

lemma registryInv_same:
  assumes "registryInv s"
    and "pendings s' = pendings s" "incompleteRcvMsgs s' = incompleteRcvMsgs s"
    and "scheduledRcvMsgs s' = scheduledRcvMsgs s" "destroyed s' = destroyed s"
    and "\<forall>t. completions t s' = completions t s"
  shows "registryInv s'"
  using assms unfolding registryInv_def by simp

lemma registryInv_createPendingMsg:
  assumes inv: "registryInv s" and live: "\<not> destroyed s"
  shows "registryInv (snd (createPendingMsg m s))"
proof -
  define n where "n = length (pendings s)"
  define p where "p = \<lparr> sessionPtr = True, pendingMsg = m, completionCancelled = False \<rparr>"
  define s' where "s' = snd (createPendingMsg m s)"
  have f: "pendings s' = pendings s @ [p]" "incompleteRcvMsgs s' = incompleteRcvMsgs s @ [n]"
    "scheduledRcvMsgs s' = scheduledRcvMsgs s" "destroyed s' = destroyed s"
    "\<And>t. completions t s' = completions t s"
    by (simp_all add: s'_def createPendingMsg_def n_def p_def completions_def)
  have reg: "\<forall>t\<in>set (incompleteRcvMsgs s). t < n \<and> completions t s = 0 \<and> \<not> completionCancelled (pendings s ! t)"
    and sch: "\<forall>t\<in>set (scheduledRcvMsgs s). t < n \<and> completions t s = 0"
    and fresh: "\<forall>t. n \<le> t \<longrightarrow> completions t s = 0"
    using inv unfolding registryInv_def n_def by auto
  have nreg: "n \<notin> set (incompleteRcvMsgs s)" and nsch: "n \<notin> set (scheduledRcvMsgs s)"
    using reg sch by auto
  have 1: "distinct (incompleteRcvMsgs s')" "distinct (scheduledRcvMsgs s')"
    "set (incompleteRcvMsgs s') \<inter> set (scheduledRcvMsgs s') = {}"
    using inv nreg nsch unfolding registryInv_def by (simp_all add: f)
  have 2: "\<forall>t\<in>set (incompleteRcvMsgs s').
        t < length (pendings s') \<and> completions t s' = 0 \<and> \<not> completionCancelled (pendings s' ! t)"
  proof
    fix t assume "t \<in> set (incompleteRcvMsgs s')"
    then consider "t \<in> set (incompleteRcvMsgs s)" | "t = n" by (auto simp: f)
    then show "t < length (pendings s') \<and> completions t s' = 0 \<and> \<not> completionCancelled (pendings s' ! t)"
    proof cases
      case 1
      then have "t < n" "completions t s = 0" "\<not> completionCancelled (pendings s ! t)" using reg by auto
      then show ?thesis by (simp add: f nth_append n_def)
    next
      case 2
      then show ?thesis using fresh [unfolded n_def] by (simp add: f n_def p_def)
    qed
  qed
  have 3: "\<forall>t\<in>set (scheduledRcvMsgs s'). t < length (pendings s') \<and> completions t s' = 0"
    using sch by (auto simp: f n_def)
  have 4: "\<forall>t. completions t s' \<le> 1" "\<forall>t. length (pendings s') \<le> t \<longrightarrow> completions t s' = 0"
    using inv fresh unfolding registryInv_def by (simp_all add: f n_def)
  have 5: "\<forall>q\<in>set (pendings s'). sessionPtr q = (\<not> completionCancelled q)"
    using inv unfolding registryInv_def by (auto simp: f p_def)
  have 6: "destroyed s' \<longrightarrow> incompleteRcvMsgs s' = [] \<and> scheduledRcvMsgs s' = []"
    using live by (simp add: f)
  show ?thesis
    unfolding s'_def [symmetric] registryInv_def using 1 2 3 4 5 6 by blast
qed

lemma registryInv_complete:
  assumes inv: "registryInv s" and t: "t < length (pendings s)" "completions t s = 0"
    "t \<notin> set (incompleteRcvMsgs s)" "t \<notin> set (scheduledRcvMsgs s)"
    and run: "completeRcvMsg m (emit (CompleteRcvMsg t) s) = (r, s')"
  shows "registryInv s'"
proof -
  define s1 where "s1 = emit (CompleteRcvMsg t) s"
  have f: "pendings s1 = pendings s" "incompleteRcvMsgs s1 = incompleteRcvMsgs s"
    "scheduledRcvMsgs s1 = scheduledRcvMsgs s" "destroyed s1 = destroyed s"
    "\<And>u. completions u s1 = (if u = t then 1 else completions u s)"
    using t(2) by (simp_all add: s1_def emit_def completions_def)
  have reg: "\<forall>u\<in>set (incompleteRcvMsgs s).
        u < length (pendings s) \<and> completions u s = 0 \<and> \<not> completionCancelled (pendings s ! u)"
    and sch: "\<forall>u\<in>set (scheduledRcvMsgs s). u < length (pendings s) \<and> completions u s = 0"
    and le: "\<forall>u. completions u s \<le> 1"
    and fresh: "\<forall>u. length (pendings s) \<le> u \<longrightarrow> completions u s = 0"
    using inv unfolding registryInv_def by blast+
  have 1: "\<forall>u\<in>set (incompleteRcvMsgs s1).
        u < length (pendings s1) \<and> completions u s1 = 0 \<and> \<not> completionCancelled (pendings s1 ! u)"
    using reg t(3) by (auto simp: f(1,2,5))
  have 2: "\<forall>u\<in>set (scheduledRcvMsgs s1). u < length (pendings s1) \<and> completions u s1 = 0"
    using sch t(4) by (auto simp: f(1,3,5))
  have 3: "\<forall>u. completions u s1 \<le> 1"
    using le by (simp add: f(5))
  have 4: "\<forall>u. length (pendings s1) \<le> u \<longrightarrow> completions u s1 = 0"
    using fresh t(1) by (auto simp: f(1,5))
  have 5: "distinct (incompleteRcvMsgs s1) \<and> distinct (scheduledRcvMsgs s1) \<and>
     set (incompleteRcvMsgs s1) \<inter> set (scheduledRcvMsgs s1) = {} \<and>
     (\<forall>p\<in>set (pendings s1). sessionPtr p = (\<not> completionCancelled p)) \<and>
     (destroyed s1 \<longrightarrow> incompleteRcvMsgs s1 = [] \<and> scheduledRcvMsgs s1 = [])"
    using inv unfolding registryInv_def f(1-4) by blast
  have inv1: "registryInv s1"
    unfolding registryInv_def using 1 2 3 4 5 by blast
  note fr = completeRcvMsg_frame [OF run [folded s1_def]]
  show ?thesis
    by (rule registryInv_same [OF inv1]) (simp_all add: fr)
qed


lemma registryInv_emit:
  assumes "registryInv s" "\<And>t. c \<noteq> CompleteRcvMsg t"
  shows "registryInv (emit c s)"
proof -
  have "completions t (emit c s) = completions t s" for t
    using assms(2) [of t] by (simp add: completions_def emit_def)
  then show ?thesis
    by (intro registryInv_same [OF assms(1)]) (simp_all add: emit_def)
qed

lemma registryInv_handler:
  "registryInv s \<Longrightarrow> registryInv (s\<lparr>handler := h\<rparr>)"
  by (erule registryInv_same) (simp_all add: completions_def)

lemma registryInv_remove:
  assumes inv: "registryInv s"
  shows "registryInv (s\<lparr>incompleteRcvMsgs := removeAll t (incompleteRcvMsgs s)\<rparr>)"
proof -
  have "\<forall>u. completions u (s\<lparr>incompleteRcvMsgs := removeAll t (incompleteRcvMsgs s)\<rparr>) = completions u s"
    by (simp add: completions_def)
  then show ?thesis
    using inv unfolding registryInv_def by (auto simp: distinct_removeAll)
qed

lemma registryInv_schedule:
  assumes inv: "registryInv s" and t: "t \<notin> set (incompleteRcvMsgs s)" "t \<notin> set (scheduledRcvMsgs s)"
    "t < length (pendings s)" "completions t s = 0" and live: "\<not> destroyed s"
  shows "registryInv (s\<lparr>scheduledRcvMsgs := scheduledRcvMsgs s @ [t]\<rparr>)"
proof -
  have "\<forall>u. completions u (s\<lparr>scheduledRcvMsgs := scheduledRcvMsgs s @ [t]\<rparr>) = completions u s"
    by (simp add: completions_def)
  then show ?thesis
    using inv t live unfolding registryInv_def by auto
qed

lemma registryInv_registered:
  assumes inv: "registryInv s" and t: "t \<in> set (incompleteRcvMsgs s)"
  shows "t < length (pendings s)" "completions t s = 0" "t \<notin> set (scheduledRcvMsgs s)"
    "\<not> completionCancelled (pendings s ! t)"
  using inv t unfolding registryInv_def by auto

lemma registryInv_callback:
  assumes inv: "registryInv s"
  shows "registryInv (snd (callback t sync s))"
proof (cases "t < length (pendings s) \<and> sessionPtr (pendings s ! t) \<and> \<not> destroyed s \<and>
    t \<in> set (incompleteRcvMsgs s)")
  case False
  then have "snd (callback t sync s) = s" by (auto simp: callback_def)
  then show ?thesis using inv by simp
next
  case True
  define s1 where "s1 = s\<lparr>incompleteRcvMsgs := removeAll t (incompleteRcvMsgs s)\<rparr>"
  have inv1: "registryInv s1" unfolding s1_def by (rule registryInv_remove [OF inv])
  note reg = registryInv_registered [OF inv, of t]
  have t1: "t < length (pendings s1)" "completions t s1 = 0" "t \<notin> set (incompleteRcvMsgs s1)"
    "t \<notin> set (scheduledRcvMsgs s1)" "\<not> destroyed s1"
    using reg True by (simp_all add: s1_def completions_def)
  show ?thesis
  proof (cases "handler s")
    case False
    then have "snd (callback t sync s) = s1" using True by (simp add: callback_def s1_def)
    then show ?thesis using inv1 by simp
  next
    case h: True
    show ?thesis
    proof (cases sync)
      case True
      obtain r s' where run: "completeRcvMsg (pendingMsg (pendings s ! t)) (emit (CompleteRcvMsg t) s1) = (r, s')"
        by (cases "completeRcvMsg (pendingMsg (pendings s ! t)) (emit (CompleteRcvMsg t) s1)")
      have "snd (callback t sync s) = s'"
        using \<open>t < length (pendings s) \<and> sessionPtr (pendings s ! t) \<and> \<not> destroyed s \<and>
            t \<in> set (incompleteRcvMsgs s)\<close> h True run
        by (simp add: callback_def s1_def)
      then show ?thesis
        using registryInv_complete [OF inv1 t1(1-4) run] by simp
    next
      case False
      define s2 where "s2 = s1\<lparr>scheduledRcvMsgs := scheduledRcvMsgs s1 @ [t]\<rparr>"
      have inv2: "registryInv s2"
        unfolding s2_def using inv1 t1 by (intro registryInv_schedule) simp_all
      have "snd (callback t sync s) = (if length (scheduledRcvMsgs s2) = 1 then emit RequestIOProcessing s2 else s2)"
        using \<open>t < length (pendings s) \<and> sessionPtr (pendings s ! t) \<and> \<not> destroyed s \<and>
            t \<in> set (incompleteRcvMsgs s)\<close> h False
        by (simp add: callback_def s1_def s2_def Let_def)
      then show ?thesis
        using inv2 registryInv_emit [OF inv2, of RequestIOProcessing] by simp
    qed
  qed
qed

lemma registryInv_completionFires:
  "registryInv s \<Longrightarrow> registryInv (snd (completionFires t sync s))"
  by (simp add: completionFires_def registryInv_callback)

lemma registryInv_pop:
  assumes "registryInv (s\<lparr>scheduledRcvMsgs := t # msgs\<rparr>)"
  shows "registryInv (s\<lparr>scheduledRcvMsgs := msgs\<rparr>)" "t < length (pendings s)" "completions t s = 0"
    "t \<notin> set (incompleteRcvMsgs s)" "t \<notin> set msgs"
  using assms unfolding registryInv_def completions_def by auto

lemma scheduled_same: "scheduledRcvMsgs s = msgs \<Longrightarrow> s\<lparr>scheduledRcvMsgs := msgs\<rparr> = s"
  by simp

lemma registryInv_drainScheduled:
  "registryInv (s\<lparr>scheduledRcvMsgs := msgs\<rparr>) \<Longrightarrow> registryInv (snd (drainScheduled msgs s))"
proof (induction msgs arbitrary: s)
  case Nil
  then show ?case by simp
next
  case (Cons t msgs)
  define s1 where "s1 = s\<lparr>scheduledRcvMsgs := msgs\<rparr>"
  note pop = registryInv_pop [OF Cons.prems]
  have inv1: "registryInv s1" using pop(1) by (simp add: s1_def)
  have t1: "t < length (pendings s1)" "completions t s1 = 0" "t \<notin> set (incompleteRcvMsgs s1)"
    "t \<notin> set (scheduledRcvMsgs s1)"
    using pop(2-5) by (simp_all add: s1_def completions_def)
  have self: "s1\<lparr>scheduledRcvMsgs := msgs\<rparr> = s1" by (simp add: s1_def)
  have unf: "drainScheduled (t # msgs) s =
      (if sessionPtr (pendings s1 ! t) \<and> destroyed s1 then (Throw UseAfterFree, s1)
       else if sessionPtr (pendings s1 ! t) \<and> handler s1 then
         (case completeRcvMsg (pendingMsg (pendings s1 ! t)) (emit (CompleteRcvMsg t) s1) of
            (Throw e, s2) \<Rightarrow> (Throw e, s2)
          | (Return _, s2) \<Rightarrow> drainScheduled msgs s2)
       else drainScheduled msgs s1)"
    using t1(1) by (simp add: Let_def s1_def)
  consider (err) "snd (drainScheduled (t # msgs) s) = s1"
    | (skip) "snd (drainScheduled (t # msgs) s) = snd (drainScheduled msgs s1)"
    | (run) "sessionPtr (pendings s1 ! t) \<and> handler s1"
        "\<not> (sessionPtr (pendings s1 ! t) \<and> destroyed s1)"
  proof (cases "sessionPtr (pendings s1 ! t) \<and> destroyed s1")
    case True
    then have "snd (drainScheduled (t # msgs) s) = s1" by (subst unf) simp
    then show ?thesis by (rule err)
  next
    case nd: False
    show ?thesis
    proof (cases "sessionPtr (pendings s1 ! t) \<and> handler s1")
      case True
      then show ?thesis using nd by (rule run)
    next
      case False
      then have "snd (drainScheduled (t # msgs) s) = snd (drainScheduled msgs s1)"
        using nd by (subst unf) auto
      then show ?thesis by (rule skip)
    qed
  qed
  then show ?case
  proof cases
    case err
    then show ?thesis using inv1 by simp
  next
    case skip
    then show ?thesis using Cons.IH [of s1] inv1 self by simp
  next
    case run
    obtain r s2 where c: "completeRcvMsg (pendingMsg (pendings s1 ! t)) (emit (CompleteRcvMsg t) s1) = (r, s2)"
      by (cases "completeRcvMsg (pendingMsg (pendings s1 ! t)) (emit (CompleteRcvMsg t) s1)")
    have inv2: "registryInv s2" by (rule registryInv_complete [OF inv1 t1 c])
    have sch2: "scheduledRcvMsgs s2 = msgs"
      using completeRcvMsg_frame [OF c] by (simp add: emit_def s1_def)
    have res: "snd (drainScheduled (t # msgs) s) =
        (case r of Throw e \<Rightarrow> s2 | Return u \<Rightarrow> snd (drainScheduled msgs s2))"
      using run c by (subst unf) (simp split: outcome.splits)
    show ?thesis
    proof (cases r)
      case (Throw e)
      then show ?thesis using res inv2 by simp
    next
      case (Return u)
      have "registryInv (s2\<lparr>scheduledRcvMsgs := msgs\<rparr>)"
        using inv2 scheduled_same [OF sch2] by simp
      then show ?thesis using res Return Cons.IH [of s2] by simp
    qed
  qed
qed

lemma registryInv_scheduledCompleter:
  "registryInv s \<Longrightarrow> registryInv (snd (scheduledCompleter s))"
  unfolding scheduledCompleter_def by (rule registryInv_drainScheduled) simp


lemma cancel_fields:
  "incompleteRcvMsgs (cancel t s) = incompleteRcvMsgs s"
  "scheduledRcvMsgs (cancel t s) = scheduledRcvMsgs s" "trace (cancel t s) = trace s"
  "destroyed (cancel t s) = destroyed s" "length (pendings (cancel t s)) = length (pendings s)"
  by (simp_all add: cancel_def)

lemma cancel_nth:
  "u < length (pendings s) \<Longrightarrow>
     pendings (cancel t s) ! u =
       (if u = t then (pendings s ! t)\<lparr>completionCancelled := True, sessionPtr := False\<rparr>
        else pendings s ! u)"
  by (simp add: cancel_def)

lemma cancel_consistent:
  assumes "\<forall>p\<in>set (pendings s). sessionPtr p = (\<not> completionCancelled p)"
  shows "\<forall>p\<in>set (pendings (cancel t s)). sessionPtr p = (\<not> completionCancelled p)"
proof
  fix p assume "p \<in> set (pendings (cancel t s))"
  then obtain u where u: "u < length (pendings s)" "p = pendings (cancel t s) ! u"
    by (metis in_set_conv_nth cancel_fields(5))
  show "sessionPtr p = (\<not> completionCancelled p)"
  proof (cases "u = t")
    case True
    then show ?thesis using u by (simp add: cancel_nth)
  next
    case False
    then have "p = pendings s ! u" using u by (simp add: cancel_nth)
    then have "p \<in> set (pendings s)" using u(1) by simp
    then show ?thesis using assms by blast
  qed
qed

lemma fold_cancel_fields:
  "incompleteRcvMsgs (fold cancel ts s) = incompleteRcvMsgs s \<and>
   scheduledRcvMsgs (fold cancel ts s) = scheduledRcvMsgs s \<and>
   trace (fold cancel ts s) = trace s \<and> destroyed (fold cancel ts s) = destroyed s \<and>
   length (pendings (fold cancel ts s)) = length (pendings s)"
  by (induction ts arbitrary: s) (simp_all add: cancel_fields)

lemma fold_cancel_consistent:
  "\<forall>p\<in>set (pendings s). sessionPtr p = (\<not> completionCancelled p) \<Longrightarrow>
     \<forall>p\<in>set (pendings (fold cancel ts s)). sessionPtr p = (\<not> completionCancelled p)"
proof (induction ts arbitrary: s)
  case Nil
  then show ?case by simp
next
  case (Cons t ts)
  from Cons.IH [OF cancel_consistent [OF Cons.prems, of t]] show ?case by simp
qed

lemma fold_cancel_keeps:
  "completionCancelled (pendings s ! t) \<and> \<not> sessionPtr (pendings s ! t) \<Longrightarrow> t < length (pendings s) \<Longrightarrow>
     completionCancelled (pendings (fold cancel ts s) ! t) \<and> \<not> sessionPtr (pendings (fold cancel ts s) ! t)"
proof (induction ts arbitrary: s)
  case Nil
  then show ?case by simp
next
  case (Cons v ts)
  have "completionCancelled (pendings (cancel v s) ! t) \<and> \<not> sessionPtr (pendings (cancel v s) ! t)"
    using Cons.prems by (simp add: cancel_nth)
  moreover have "t < length (pendings (cancel v s))" using Cons.prems(2) by (simp add: cancel_fields)
  ultimately show ?case using Cons.IH [of "cancel v s"] by simp
qed

lemma fold_cancel_cancelled:
  "t \<in> set ts \<Longrightarrow> t < length (pendings s) \<Longrightarrow>
     completionCancelled (pendings (fold cancel ts s) ! t) \<and> \<not> sessionPtr (pendings (fold cancel ts s) ! t)"
proof (induction ts arbitrary: s)
  case Nil
  then show ?case by simp
next
  case (Cons u ts)
  have len: "t < length (pendings (cancel u s))" using Cons.prems(2) by (simp add: cancel_fields)
  show ?case
  proof (cases "t = u")
    case True
    have "completionCancelled (pendings (cancel u s) ! t) \<and> \<not> sessionPtr (pendings (cancel u s) ! t)"
      using True Cons.prems(2) by (simp add: cancel_nth)
    then show ?thesis using fold_cancel_keeps [of "cancel u s" t ts] len by simp
  next
    case False
    then have "t \<in> set ts" using Cons.prems(1) by simp
    then show ?thesis using Cons.IH [of "cancel u s"] len by simp
  qed
qed

lemma registryInv_destroy:
  assumes inv: "registryInv s"
  shows "registryInv (destroy s)"
proof -
  define s2 where "s2 = (if flowControlTimer (emit SemanticClosed s) then emit TimerCancel (emit SemanticClosed s)
      else emit SemanticClosed s)"
  define s3 where "s3 = fold cancel (incompleteRcvMsgs s2) (s2\<lparr>incompleteRcvMsgs := []\<rparr>)"
  have d: "destroy s = s3\<lparr>scheduledRcvMsgs := [], destroyed := True\<rparr>"
    by (simp add: destroy_def Let_def s2_def s3_def)
  have inv2: "registryInv s2"
    unfolding s2_def using inv by (auto intro!: registryInv_emit)
  note f = fold_cancel_fields [of "incompleteRcvMsgs s2" "s2\<lparr>incompleteRcvMsgs := []\<rparr>", folded s3_def]
  have c: "\<forall>t. completions t (destroy s) = completions t s2"
    using f by (simp add: d completions_def)
  have p: "\<forall>p\<in>set (pendings (destroy s)). sessionPtr p = (\<not> completionCancelled p)"
  proof -
    have "\<forall>p\<in>set (pendings (s2\<lparr>incompleteRcvMsgs := []\<rparr>)). sessionPtr p = (\<not> completionCancelled p)"
      using inv2 unfolding registryInv_def by simp
    from fold_cancel_consistent [OF this, of "incompleteRcvMsgs s2"] show ?thesis
      by (simp add: d s3_def)
  qed
  have l: "length (pendings (destroy s)) = length (pendings s2)"
    using f by (simp add: d)
  have e: "incompleteRcvMsgs (destroy s) = []" "scheduledRcvMsgs (destroy s) = []"
    using f by (simp_all add: d)
  show ?thesis
    unfolding registryInv_def using inv2 [unfolded registryInv_def] by (simp add: e c p l)
qed

lemma registryInv_applyOp:
  assumes "registryInv s"
  shows "registryInv (applyOp op s)"
proof (cases op)
  case (Register m)
  then show ?thesis using assms registryInv_createPendingMsg [of s m] by simp
next
  case (Fire t sync)
  then show ?thesis using assms by (simp add: registryInv_completionFires)
next
  case Drain
  then show ?thesis using assms by (simp add: registryInv_scheduledCompleter)
next
  case Detach
  then show ?thesis
    using assms registryInv_handler [OF registryInv_emit [OF assms, of SemanticDetached], of False]
    by (simp add: detach_def)
next
  case Attach
  then show ?thesis using assms registryInv_handler [OF assms, of True] by (simp add: attach_def)
next
  case Destroy
  then show ?thesis using assms by (simp add: registryInv_destroy)
qed

lemma registryInv_runOps:
  "registryInv s \<Longrightarrow> registryInv (runOps ops s)"
  unfolding runOps_def by (induction ops arbitrary: s) (simp_all add: registryInv_applyOp)

lemma registryInv_constructed:
  "constructed s \<Longrightarrow> registryInv s"
  by (simp add: constructed_def registryInv_def completions_def)

lemma drainScheduled_skips:
  "\<forall>t\<in>set msgs. t < length (pendings s) \<and> (\<not> sessionPtr (pendings s ! t) \<or> \<not> handler s \<and> \<not> destroyed s) \<Longrightarrow>
     drainScheduled msgs s = (Return (), s\<lparr>scheduledRcvMsgs := []\<rparr>)"
proof (induction msgs arbitrary: s)
  case Nil
  show ?case by simp
next
  case (Cons t msgs)
  have "drainScheduled msgs (s\<lparr>scheduledRcvMsgs := msgs\<rparr>)
      = (Return (), (s\<lparr>scheduledRcvMsgs := msgs\<rparr>)\<lparr>scheduledRcvMsgs := []\<rparr>)"
    using Cons.prems by (intro Cons.IH) simp
  then show ?case using Cons.prems by (auto simp: Let_def)
qed

lemma completionFires_noop:
  assumes inv: "registryInv s" and t: "t < length (pendings s)"
    and c: "completionCancelled (pendings s ! t) \<or> (\<not> handler s \<and> \<not> destroyed s)"
  shows "completionFires t sync s = (Return (), s\<lparr>incompleteRcvMsgs := removeAll t (incompleteRcvMsgs s)\<rparr>)"
proof (cases "completionCancelled (pendings s ! t)")
  case True
  then have "t \<notin> set (incompleteRcvMsgs s)" using inv unfolding registryInv_def by auto
  then have "removeAll t (incompleteRcvMsgs s) = incompleteRcvMsgs s" by simp
  then show ?thesis using True t by (simp add: completionFires_def)
next
  case False
  then have d: "\<not> handler s" "\<not> destroyed s" using c by auto
  have "pendings s ! t \<in> set (pendings s)" using t by simp
  then have sp: "sessionPtr (pendings s ! t)" using inv False unfolding registryInv_def by blast
  show ?thesis
  proof (cases "t \<in> set (incompleteRcvMsgs s)")
    case True
    then show ?thesis using False t d sp by (simp add: completionFires_def callback_def)
  next
    case False
    then have "removeAll t (incompleteRcvMsgs s) = incompleteRcvMsgs s" by simp
    then show ?thesis
      using False \<open>\<not> completionCancelled (pendings s ! t)\<close> t d sp
      by (simp add: completionFires_def callback_def)
  qed
qed


lemma destroy_cancels:
  assumes t: "t \<in> set (incompleteRcvMsgs s)" "t < length (pendings s)"
  shows "completionFires t sync (destroy s) = (Return (), destroy s)"
proof -
  define s2 where "s2 = (if flowControlTimer (emit SemanticClosed s) then emit TimerCancel (emit SemanticClosed s)
      else emit SemanticClosed s)"
  define s3 where "s3 = fold cancel (incompleteRcvMsgs s2) (s2\<lparr>incompleteRcvMsgs := []\<rparr>)"
  have d: "destroy s = s3\<lparr>scheduledRcvMsgs := [], destroyed := True\<rparr>"
    by (simp add: destroy_def Let_def s2_def s3_def)
  have s2: "incompleteRcvMsgs s2 = incompleteRcvMsgs s" "pendings s2 = pendings s"
    by (simp_all add: s2_def emit_def)
  have "completionCancelled (pendings s3 ! t)"
    unfolding s3_def using t by (intro fold_cancel_cancelled [THEN conjunct1]) (simp_all add: s2)
  moreover have "length (pendings s3) = length (pendings s)"
    using fold_cancel_fields [of "incompleteRcvMsgs s2" "s2\<lparr>incompleteRcvMsgs := []\<rparr>"]
    by (simp add: s3_def s2)
  ultimately show ?thesis using t(2) by (simp add: completionFires_def d)
qed

lemma destroy_clears:
  "incompleteRcvMsgs (destroy s) = [] \<and> scheduledRcvMsgs (destroy s) = []"
  using fold_cancel_fields [of "incompleteRcvMsgs
      (if flowControlTimer (emit SemanticClosed s) then emit TimerCancel (emit SemanticClosed s)
       else emit SemanticClosed s)"
     "(if flowControlTimer (emit SemanticClosed s) then emit TimerCancel (emit SemanticClosed s)
       else emit SemanticClosed s)\<lparr>incompleteRcvMsgs := []\<rparr>"]
  by (simp add: destroy_def Let_def)

text \<open>
  C3. On every run of the registry operations from a constructed session,
  \<^verbatim>\<open>completeRcvMsg\<close> is called at most once for each pending receive, so a second
  completion for the same one is a no-op: the callback of a pending receive that is no
  longer registered changes nothing. A completion that fires for a pending receive
  that was cancelled, or while the session is detached, returns without a call on the wire
  and without calling \<^verbatim>\<open>completeRcvMsg\<close>: the state afterwards is the state before
  with the entry out of the registry (a cancelled one is no longer there). A destroyed
  session has an empty registry and deque. In any state, \<^verbatim>\<open>scheduledCompleter\<close>
  only empties a deque whose entries have lost their session pointer or belong to a
  detached session; and the destructor clears the registry and the deque and cancels
  every registered pending receive, so that its completion is a no-op afterwards.
\<close>

theorem pending_receive_completes_once:
  "(constructed s0 \<longrightarrow>
      (let s = runOps ops s0 in
         (\<forall>t. count_list (trace s) (CompleteRcvMsg t) \<le> 1) \<and>
         (\<forall>t sync. t < length (pendings s) \<and>
              (completionCancelled (pendings s ! t) \<or> \<not> handler s \<and> \<not> destroyed s) \<longrightarrow>
              completionFires t sync s
                = (Return (), s\<lparr>incompleteRcvMsgs := removeAll t (incompleteRcvMsgs s)\<rparr>)) \<and>
         (destroyed s \<longrightarrow> incompleteRcvMsgs s = [] \<and> scheduledRcvMsgs s = [])))
   \<and> ((\<forall>t\<in>set (scheduledRcvMsgs s1).
          t < length (pendings s1) \<and> (\<not> sessionPtr (pendings s1 ! t) \<or> \<not> handler s1 \<and> \<not> destroyed s1)) \<longrightarrow>
        scheduledCompleter s1 = (Return (), s1\<lparr>scheduledRcvMsgs := []\<rparr>))
   \<and> (u < length (pendings s1) \<and> sessionPtr (pendings s1 ! u) \<and> \<not> destroyed s1 \<and>
        u \<notin> set (incompleteRcvMsgs s1) \<longrightarrow>
        callback u sync1 s1 = (Return (), s1))
   \<and> (incompleteRcvMsgs (destroy s1) = [] \<and> scheduledRcvMsgs (destroy s1) = [] \<and>
        (\<forall>t\<in>set (incompleteRcvMsgs s1). t < length (pendings s1) \<longrightarrow>
           (\<forall>sync. completionFires t sync (destroy s1) = (Return (), destroy s1))))"
proof (intro conjI impI)
  assume c: "constructed s0"
  define s where "s = runOps ops s0"
  have inv: "registryInv s"
    unfolding s_def by (intro registryInv_runOps registryInv_constructed c)
  have 1: "\<forall>t. count_list (trace s) (CompleteRcvMsg t) \<le> 1"
    using inv unfolding registryInv_def completions_def by blast
  have 2: "\<forall>t sync. t < length (pendings s) \<and>
              (completionCancelled (pendings s ! t) \<or> \<not> handler s \<and> \<not> destroyed s) \<longrightarrow>
              completionFires t sync s
                = (Return (), s\<lparr>incompleteRcvMsgs := removeAll t (incompleteRcvMsgs s)\<rparr>)"
    using completionFires_noop [OF inv] by blast
  have 3: "destroyed s \<longrightarrow> incompleteRcvMsgs s = [] \<and> scheduledRcvMsgs s = []"
    using inv unfolding registryInv_def by blast
  show "let s = runOps ops s0 in
         (\<forall>t. count_list (trace s) (CompleteRcvMsg t) \<le> 1) \<and>
         (\<forall>t sync. t < length (pendings s) \<and>
              (completionCancelled (pendings s ! t) \<or> \<not> handler s \<and> \<not> destroyed s) \<longrightarrow>
              completionFires t sync s
                = (Return (), s\<lparr>incompleteRcvMsgs := removeAll t (incompleteRcvMsgs s)\<rparr>)) \<and>
         (destroyed s \<longrightarrow> incompleteRcvMsgs s = [] \<and> scheduledRcvMsgs s = [])"
    unfolding Let_def s_def [symmetric] using 1 2 3 by (intro conjI)
next
  assume "\<forall>t\<in>set (scheduledRcvMsgs s1).
          t < length (pendings s1) \<and> (\<not> sessionPtr (pendings s1 ! t) \<or> \<not> handler s1 \<and> \<not> destroyed s1)"
  then show "scheduledCompleter s1 = (Return (), s1\<lparr>scheduledRcvMsgs := []\<rparr>)"
    unfolding scheduledCompleter_def by (rule drainScheduled_skips)
next
  assume "u < length (pendings s1) \<and> sessionPtr (pendings s1 ! u) \<and> \<not> destroyed s1 \<and>
        u \<notin> set (incompleteRcvMsgs s1)"
  then show "callback u sync1 s1 = (Return (), s1)"
    by (simp add: callback_def)
next
  show "incompleteRcvMsgs (destroy s1) = []" "scheduledRcvMsgs (destroy s1) = []"
    using destroy_clears [of s1] by simp_all
next
  show "\<forall>t\<in>set (incompleteRcvMsgs s1). t < length (pendings s1) \<longrightarrow>
           (\<forall>sync. completionFires t sync (destroy s1) = (Return (), destroy s1))"
    using destroy_cancels by blast
qed

lemma example_run:
  "runOps exampleOps (freshSession :: nat session)
     = freshSession\<lparr>handler := False, receiverCompletedToSend := [1], accepted := [1],
         pendings := [\<lparr> sessionPtr = True, pendingMsg = transferMsg 1, completionCancelled = False \<rparr>,
                      \<lparr> sessionPtr = True, pendingMsg = transferMsg 2, completionCancelled = False \<rparr>,
                      \<lparr> sessionPtr = True, pendingMsg = transferMsg 3, completionCancelled = False \<rparr>],
         incompleteRcvMsgs := [2], scheduledRcvMsgs := [1],
         trace := [CompleteRcvMsg 0, ReceiverCompleted 1, RequestIOProcessing, SemanticDetached]\<rparr>"
  by (simp add: runOps_def exampleOps_def freshSession_def createPendingMsg_def completionFires_def
      callback_def completeRcvMsg_def andThen_def syncLoop.simps receiverCompleted_def emit_def
      transferMsg_def requiresAccept_def msgMethod_def List.map_filter_def getMethod_def methodFrame_def
      transferMethod_def dummyHeader_def detach_def Let_def)


theorem pending_receive_completes_once_witness:
  "constructed (freshSession :: nat session)
   \<and> count_list (trace (runOps exampleOps (freshSession :: nat session))) (CompleteRcvMsg 0) = 1
   \<and> \<not> handler (runOps exampleOps (freshSession :: nat session))
   \<and> \<not> destroyed (runOps exampleOps (freshSession :: nat session))
   \<and> incompleteRcvMsgs (runOps exampleOps (freshSession :: nat session)) = [2]
   \<and> scheduledRcvMsgs (runOps exampleOps (freshSession :: nat session)) = [1]
   \<and> completionFires 2 False (runOps exampleOps (freshSession :: nat session))
        = (Return (), (runOps exampleOps freshSession)\<lparr>incompleteRcvMsgs := []\<rparr>)
   \<and> scheduledCompleter (runOps exampleOps (freshSession :: nat session))
        = (Return (), (runOps exampleOps freshSession)\<lparr>scheduledRcvMsgs := []\<rparr>)
   \<and> callback 0 True (runOps exampleOps (freshSession :: nat session)\<lparr>handler := True\<rparr>)
        = (Return (), runOps exampleOps freshSession\<lparr>handler := True\<rparr>)
   \<and> incompleteRcvMsgs (destroy (runOps exampleOps (freshSession :: nat session))) = []
   \<and> completionFires 2 True (destroy (runOps exampleOps (freshSession :: nat session)))
        = (Return (), destroy (runOps exampleOps freshSession))"
proof -
  define s where "s = runOps exampleOps (freshSession :: nat session)"
  have c: "constructed (freshSession :: nat session)"
    by (simp add: constructed_def freshSession_def)
  have f: "length (pendings s) = 3" "\<not> handler s" "\<not> destroyed s" "incompleteRcvMsgs s = [2]"
    "scheduledRcvMsgs s = [1]" "count_list (trace s) (CompleteRcvMsg 0) = 1"
    unfolding s_def example_run by (simp_all add: freshSession_def)
  note T = pending_receive_completes_once [of "freshSession :: nat session" exampleOps s, folded s_def]
  have run: "\<forall>t sync. t < length (pendings s) \<and>
              (completionCancelled (pendings s ! t) \<or> \<not> handler s \<and> \<not> destroyed s) \<longrightarrow>
              completionFires t sync s
                = (Return (), s\<lparr>incompleteRcvMsgs := removeAll t (incompleteRcvMsgs s)\<rparr>)"
    using T c by (simp add: Let_def)
  have a: "completionFires 2 False s = (Return (), s\<lparr>incompleteRcvMsgs := []\<rparr>)"
    using run [rule_format, of 2 False] f by simp
  have b: "scheduledCompleter s = (Return (), s\<lparr>scheduledRcvMsgs := []\<rparr>)"
    using T f by simp
  have g: "length (pendings (s\<lparr>handler := True\<rparr>)) = 3" "sessionPtr (pendings (s\<lparr>handler := True\<rparr>) ! 0)"
    "\<not> destroyed (s\<lparr>handler := True\<rparr>)" "incompleteRcvMsgs (s\<lparr>handler := True\<rparr>) = [2]"
    "pendings s \<noteq> []"
    unfolding s_def example_run by (simp_all add: freshSession_def)
  have dup: "callback 0 True (s\<lparr>handler := True\<rparr>) = (Return (), s\<lparr>handler := True\<rparr>)"
    using pending_receive_completes_once [of "freshSession :: nat session" exampleOps
        "s\<lparr>handler := True\<rparr>" 0 True] g
    by simp
  have d: "incompleteRcvMsgs (destroy s) = []"
    "completionFires 2 True (destroy s) = (Return (), destroy s)"
    using T f by simp_all
  show ?thesis
    unfolding s_def [symmetric] using c f a b dup d by (intro conjI)
qed


end
